theory Spec2Isabelle
  imports Main
begin

section \<open>Strings and paths\<close>

text \<open>
  Go strings are byte sequences; they are modelled as \<open>string\<close> (a list of 8-bit
  characters). Case mapping is modelled on the ASCII letters: \<open>strings.ToLower\<close> and
  \<open>strings.EqualFold\<close> agree with this model on every ASCII string, and bytes outside
  ASCII are left alone.
\<close>

definition lower_char :: "char \<Rightarrow> char" where
  "lower_char c =
     (case map_of (zip ''ABCDEFGHIJKLMNOPQRSTUVWXYZ'' ''abcdefghijklmnopqrstuvwxyz'') c of
        Some l \<Rightarrow> l
      | None \<Rightarrow> c)"

definition strings_ToLower :: "string \<Rightarrow> string" where
  "strings_ToLower s = map lower_char s"

definition strings_EqualFold :: "string \<Rightarrow> string \<Rightarrow> bool" where
  "strings_EqualFold s t = (strings_ToLower s = strings_ToLower t)"

fun strings_HasPrefix :: "string \<Rightarrow> string \<Rightarrow> bool" where
  "strings_HasPrefix s [] = True"
| "strings_HasPrefix [] (p # ps) = False"
| "strings_HasPrefix (c # cs) (p # ps) = (c = p \<and> strings_HasPrefix cs ps)"

definition strings_TrimPrefix :: "string \<Rightarrow> string \<Rightarrow> string" where
  "strings_TrimPrefix s p = (if strings_HasPrefix s p then drop (length p) s else s)"

definition strings_HasSuffix :: "string \<Rightarrow> string \<Rightarrow> bool" where
  "strings_HasSuffix s p = strings_HasPrefix (rev s) (rev p)"

definition strings_TrimSuffix :: "string \<Rightarrow> string \<Rightarrow> string" where
  "strings_TrimSuffix s p =
     (if strings_HasSuffix s p then take (length s - length p) s else s)"

text \<open>Decimal rendering of a loop counter, as \<open>%d\<close> of \<open>fmt.Sprintf\<close> prints it.\<close>

definition digit_char :: "nat \<Rightarrow> char" where
  "digit_char d = ''0123456789'' ! d"

fun itoa :: "nat \<Rightarrow> string" where
  "itoa n = (if n < 10 then [digit_char n] else itoa (n div 10) @ [digit_char (n mod 10)])"

declare itoa.simps [simp del]

text \<open>
  The functions of \<open>path/filepath\<close> on a Unix system (separator \<open>/\<close>, no volume names).
  \<open>filepath_Clean\<close> computes what \<open>filepath.Clean\<close> specifies: runs of separators
  collapse, \<open>.\<close> elements disappear, an inner \<open>..\<close> removes the element before it, a
  \<open>..\<close> that begins a rooted path disappears, and the empty result is \<open>.\<close>.
\<close>

fun split_sep :: "string \<Rightarrow> string list" where
  "split_sep [] = [[]]"
| "split_sep (c # cs) =
     (if c = CHR ''/'' then [] # split_sep cs
      else (case split_sep cs of [] \<Rightarrow> [[c]] | e # es \<Rightarrow> (c # e) # es))"

definition clean_elem :: "bool \<Rightarrow> string list \<Rightarrow> string \<Rightarrow> string list" where
  "clean_elem rooted stk e =
     (if e = [] \<or> e = ''.'' then stk
      else if e = ''..'' then
        (if stk \<noteq> [] \<and> last stk \<noteq> ''..'' then butlast stk
         else if rooted then stk
         else stk @ [e])
      else stk @ [e])"

fun join_sep :: "string list \<Rightarrow> string" where
  "join_sep [] = []"
| "join_sep [e] = e"
| "join_sep (e # es) = e @ ''/'' @ join_sep es"

definition filepath_Clean :: "string \<Rightarrow> string" where
  "filepath_Clean p =
     (if p = [] then ''.''
      else
        (let rooted = (hd p = CHR ''/'');
             body = join_sep (foldl (clean_elem rooted) [] (split_sep p))
         in if rooted then CHR ''/'' # body
            else if body = [] then ''.'' else body))"

definition filepath_Join :: "string \<Rightarrow> string \<Rightarrow> string" where
  "filepath_Join a b =
     (if a \<noteq> [] then filepath_Clean (a @ ''/'' @ b)
      else if b \<noteq> [] then filepath_Clean b
      else [])"

fun ext_scan :: "string \<Rightarrow> string \<Rightarrow> string" where
  "ext_scan [] acc = []"
| "ext_scan (c # cs) acc =
     (if c = CHR ''/'' then []
      else if c = CHR ''.'' then c # acc
      else ext_scan cs (c # acc))"

definition filepath_Ext :: "string \<Rightarrow> string" where
  "filepath_Ext p = ext_scan (rev p) []"

definition filepath_Base :: "string \<Rightarrow> string" where
  "filepath_Base p =
     (if p = [] then ''.''
      else
        (let q = rev (dropWhile (\<lambda>c. c = CHR ''/'') (rev p));
             b = rev (takeWhile (\<lambda>c. c \<noteq> CHR ''/'') (rev q))
         in if b = [] then ''/'' else b))"

definition filepath_Dir :: "string \<Rightarrow> string" where
  "filepath_Dir p = filepath_Clean (rev (dropWhile (\<lambda>c. c \<noteq> CHR ''/'') (rev p)))"

section \<open>Errors\<close>

datatype error =
    ErrHomeDir
  | ErrNotExist
  | ErrNotDir
  | ErrIsDir
  | ErrFault
  | ErrNotStabilized

section \<open>Home expansion\<close>


section \<open>The file system\<close>

text \<open>
  The file system is a map from path names to nodes: a regular file with its bytes, or a
  directory with the size \<open>Stat\<close> reports for it (which depends on the system). The
  name space is flat: a path names its own node only. \<open>os.Stat\<close> fails exactly on a
  path with no node.
\<close>

datatype node = File (content: string) | Dir (dsize: nat)

type_synonym fs = "string \<Rightarrow> node option"

record FileInfo =
  fi_Size :: int
  fi_IsDir :: bool

definition os_Stat :: "fs \<Rightarrow> string \<Rightarrow> error + FileInfo" where
  "os_Stat fsys p =
     (case fsys p of
        None \<Rightarrow> Inl ErrNotExist
      | Some (File c) \<Rightarrow> Inr \<lparr>fi_Size = int (length c), fi_IsDir = False\<rparr>
      | Some (Dir k) \<Rightarrow> Inr \<lparr>fi_Size = int k, fi_IsDir = True\<rparr>)"

section \<open>Classifier\<close>

record Rule =
  Name :: string
  Patterns :: "string list"
  Extensions :: "string list"
  MIMEPrefixes :: "string list"
  Action :: string
  Dest :: string
  SkipDuplicates :: bool
  WebDAVUpload :: bool
  WebDAVPath :: string

text \<open>
  \<open>filepath.Match\<close>: \<open>*\<close> matches any run of non-separator characters, \<open>?\<close> one
  non-separator character, \<open>[...]\<close> one character of a class (\<open>^\<close> negates, \<open>lo-hi\<close>
  is a range), a backslash quotes the next character, and any other character matches
  itself. A malformed pattern matches nothing (\<open>anyPatternMatch\<close> drops the error).
\<close>

definition get_esc :: "string \<Rightarrow> (char \<times> string) option" where
  "get_esc s =
     (case s of
        [] \<Rightarrow> None
      | c # cs \<Rightarrow>
          if c = CHR ''-'' \<or> c = CHR '']'' then None
          else if c = CHR 0x5C then
            (case cs of
               [] \<Rightarrow> None
             | d # ds \<Rightarrow> if ds = [] then None else Some (d, ds))
          else if cs = [] then None else Some (c, cs))"

lemma get_esc_shorter: "get_esc s = Some (c, r) \<Longrightarrow> length r < length s"
  by (auto simp: get_esc_def split: list.splits if_splits)

function class_scan :: "string \<Rightarrow> char \<Rightarrow> bool \<Rightarrow> nat \<Rightarrow> (bool \<times> string) option" where
  "class_scan s r m n =
     (case s of
        [] \<Rightarrow> None
      | c # cs \<Rightarrow>
          if c = CHR '']'' \<and> 0 < n then Some (m, cs)
          else
            (case get_esc s of
               None \<Rightarrow> None
             | Some (lo, s1) \<Rightarrow>
                 if s1 \<noteq> [] \<and> hd s1 = CHR ''-'' then
                   (case get_esc (tl s1) of
                      None \<Rightarrow> None
                    | Some (hi, s2) \<Rightarrow>
                        class_scan s2 r
                          (m \<or> (of_char lo \<le> (of_char r :: nat) \<and> (of_char r :: nat) \<le> of_char hi))
                          (Suc n))
                 else class_scan s1 r (m \<or> r = lo) (Suc n)))"
  by pat_completeness auto

termination
proof (relation "measure (\<lambda>(s, r, m, n). length s)", goal_cases)
  case 1
  show ?case by simp
next
  case 2
  then show ?case
    by (metis (no_types, lifting) get_esc_shorter length_tl less_imp_diff_less less_trans
        in_measure old.prod.case)
next
  case 3
  then show ?case by (auto dest: get_esc_shorter)
qed

declare class_scan.simps [simp del]

lemma class_scan_shorter: "class_scan s r m n = Some (b, rest) \<Longrightarrow> length rest < length s"
proof (induction s r m n rule: class_scan.induct)
  case (1 s r m n)
  show ?case
  proof (cases s)
    case Nil
    with "1.prems" show ?thesis by (simp add: class_scan.simps)
  next
    case (Cons c cs)
    show ?thesis
    proof (cases "c = CHR '']'' \<and> 0 < n")
      case True
      with Cons "1.prems" show ?thesis by (simp add: class_scan.simps)
    next
      case False
      from "1.prems" Cons False obtain lo s1 where g1: "get_esc s = Some (lo, s1)"
        by (subst (asm) class_scan.simps) (auto split: option.splits)
      have l1: "length s1 < length s" using g1 by (rule get_esc_shorter)
      show ?thesis
      proof (cases "s1 \<noteq> [] \<and> hd s1 = CHR ''-''")
        case dash: True
        from "1.prems" Cons False g1 dash obtain hi s2
          where g2: "get_esc (tl s1) = Some (hi, s2)"
            and r2: "class_scan s2 r
                (m \<or> (of_char lo \<le> (of_char r :: nat) \<and> (of_char r :: nat) \<le> of_char hi))
                (Suc n) = Some (b, rest)"
          by (subst (asm) class_scan.simps) (auto split: option.splits)
        have "length rest < length s2"
          using "1.IH"(1) [OF Cons False g1 refl dash g2 refl r2] .
        moreover have "length s2 < length (tl s1)" using g2 by (rule get_esc_shorter)
        ultimately show ?thesis using l1 dash by (cases s1) auto
      next
        case nodash: False
        from "1.prems" Cons False g1 nodash
        have r1: "class_scan s1 r (m \<or> r = lo) (Suc n) = Some (b, rest)"
          by (subst (asm) class_scan.simps) (auto split: option.splits)
        have "length rest < length s1"
          using "1.IH"(2) [OF Cons False g1 refl nodash r1] .
        then show ?thesis using l1 by simp
      qed
    qed
  qed
qed

function filepath_Match :: "string \<Rightarrow> string \<Rightarrow> bool" where
  "filepath_Match pat name =
     (case pat of
        [] \<Rightarrow> name = []
      | g # gs \<Rightarrow>
          if g = CHR ''*'' then
            (filepath_Match gs name \<or>
             (case name of
                [] \<Rightarrow> False
              | c # cs \<Rightarrow> c \<noteq> CHR ''/'' \<and> filepath_Match pat cs))
          else
            (case name of
               [] \<Rightarrow> False
             | c # cs \<Rightarrow>
                 if g = CHR ''?'' then c \<noteq> CHR ''/'' \<and> filepath_Match gs cs
                 else if g = CHR ''['' then
                   (case (if gs \<noteq> [] \<and> hd gs = CHR ''^''
                          then class_scan (tl gs) c False 0
                          else class_scan gs c False 0) of
                      None \<Rightarrow> False
                    | Some (m, rest) \<Rightarrow>
                        (m \<noteq> (gs \<noteq> [] \<and> hd gs = CHR ''^'')) \<and> filepath_Match rest cs)
                 else if g = CHR 0x5C then
                   (case gs of
                      [] \<Rightarrow> False
                    | q # qs \<Rightarrow> c = q \<and> filepath_Match qs cs)
                 else c = g \<and> filepath_Match gs cs))"
  by pat_completeness auto

termination
proof (relation "measure (\<lambda>(pat, name). length pat + length name)", goal_cases)
  case (5 pat name g gs c cs x m rest)
  then have "length rest < length gs"
    by (cases gs) (auto dest: class_scan_shorter split: if_splits)
  with 5 show ?case by simp
qed auto

declare filepath_Match.simps [simp del]

text \<open>
  The two library tables content-type detection consults are parameters:
  \<open>mime.TypeByExtension\<close> (empty for an unknown extension) and
  \<open>http.DetectContentType\<close>.
\<close>

record sys =
  mime_TypeByExtension :: "string \<Rightarrow> string"
  http_DetectContentType :: "string \<Rightarrow> string"

definition detectMIME :: "sys \<Rightarrow> fs \<Rightarrow> string \<Rightarrow> string" where
  "detectMIME sy fsys path =
     (let ext = strings_ToLower (filepath_Ext path) in
      if ext \<noteq> [] \<and> mime_TypeByExtension sy ext \<noteq> [] then mime_TypeByExtension sy ext
      else
        (case fsys path of
           None \<Rightarrow> []
         | Some (File c) \<Rightarrow> http_DetectContentType sy (take 512 c)
         | Some (Dir k) \<Rightarrow> http_DetectContentType sy []))"

fun hasIgnoredExt_loop :: "string \<Rightarrow> string list \<Rightarrow> bool" where
  "hasIgnoredExt_loop ext [] = False"
| "hasIgnoredExt_loop ext (ig # igs) =
     (if strings_EqualFold ext ig then True else hasIgnoredExt_loop ext igs)"

definition hasIgnoredExt :: "string \<Rightarrow> string list \<Rightarrow> bool" where
  "hasIgnoredExt path ignores =
     hasIgnoredExt_loop (strings_ToLower (filepath_Ext path)) ignores"

fun anyPatternMatch_loop :: "string \<Rightarrow> string list \<Rightarrow> bool" where
  "anyPatternMatch_loop name [] = False"
| "anyPatternMatch_loop name (g # gs) =
     (if filepath_Match g name then True else anyPatternMatch_loop name gs)"

definition anyPatternMatch :: "string \<Rightarrow> string list \<Rightarrow> bool" where
  "anyPatternMatch name patterns =
     (if length patterns = 0 then False else anyPatternMatch_loop name patterns)"

fun extMatches_loop :: "string \<Rightarrow> string list \<Rightarrow> bool" where
  "extMatches_loop ext [] = False"
| "extMatches_loop ext (e # es) =
     (if strings_EqualFold e ext then True else extMatches_loop ext es)"

definition extMatches :: "string \<Rightarrow> string list \<Rightarrow> bool" where
  "extMatches name exts =
     (if length exts = 0 then False
      else extMatches_loop
             (strings_TrimPrefix (strings_ToLower (filepath_Ext name)) ''.'') exts)"

fun mimePrefixMatches_loop :: "string \<Rightarrow> string list \<Rightarrow> bool" where
  "mimePrefixMatches_loop mt [] = False"
| "mimePrefixMatches_loop mt (p # ps) =
     (if strings_HasPrefix mt p then True else mimePrefixMatches_loop mt ps)"

definition mimePrefixMatches :: "string \<Rightarrow> string list \<Rightarrow> bool" where
  "mimePrefixMatches mt prefixes =
     (if length prefixes = 0 \<or> mt = [] then False
      else mimePrefixMatches_loop mt prefixes)"

fun chooseRule_loop :: "string \<Rightarrow> string \<Rightarrow> Rule list \<Rightarrow> Rule option" where
  "chooseRule_loop base mt [] = None"
| "chooseRule_loop base mt (r # rs) =
     (if anyPatternMatch base (Patterns r) \<or> extMatches base (Extensions r)
         \<or> mimePrefixMatches mt (MIMEPrefixes r)
      then Some r
      else chooseRule_loop base mt rs)"

definition chooseRule :: "sys \<Rightarrow> fs \<Rightarrow> string \<Rightarrow> Rule list \<Rightarrow> Rule option" where
  "chooseRule sy fsys path rules =
     (let base = filepath_Base path;
          mt = detectMIME sy fsys path
      in chooseRule_loop base mt rules)"

section \<open>Destination naming and duplicate detection\<close>

text \<open>The numbered variant \<open>stem (i)ext\<close> inside \<open>dir\<close>.\<close>

definition numbered :: "string \<Rightarrow> string \<Rightarrow> string \<Rightarrow> nat \<Rightarrow> string" where
  "numbered dir stem ext i = filepath_Join dir (stem @ '' ('' @ itoa i @ '')'' @ ext)"

function uniquePath_loop :: "fs \<Rightarrow> string \<Rightarrow> string \<Rightarrow> string \<Rightarrow> string \<Rightarrow> nat \<Rightarrow> string" where
  "uniquePath_loop fsys dst dir stem ext i =
     (if i < 10000 then
        (let candidate = numbered dir stem ext i in
         case os_Stat fsys candidate of
           Inl err \<Rightarrow> candidate
         | Inr st \<Rightarrow> uniquePath_loop fsys dst dir stem ext (i + 1))
      else dst @ ''.dup'')"
  by pat_completeness auto

termination
  by (relation "measure (\<lambda>(fsys, dst, dir, stem, ext, i). 10000 - i)") auto

declare uniquePath_loop.simps [simp del]

definition uniquePath :: "fs \<Rightarrow> string \<Rightarrow> string" where
  "uniquePath fsys dst =
     (case os_Stat fsys dst of
        Inl err \<Rightarrow> dst
      | Inr st \<Rightarrow>
          (let dir = filepath_Dir dst;
               base = filepath_Base dst;
               ext = filepath_Ext base;
               stem = strings_TrimSuffix base ext
           in uniquePath_loop fsys dst dir stem ext 2))"

function fileExistsWithSameSize_loop :: "fs \<Rightarrow> string \<Rightarrow> string \<Rightarrow> string \<Rightarrow> int \<Rightarrow> nat \<Rightarrow> bool" where
  "fileExistsWithSameSize_loop fsys destDir stem ext srcSize i =
     (if i < 10000 then
        (let candidate = numbered destDir stem ext i in
         case os_Stat fsys candidate of
           Inl err \<Rightarrow> False
         | Inr dstStat \<Rightarrow>
             if fi_Size dstStat = srcSize \<and> 0 < srcSize then True
             else fileExistsWithSameSize_loop fsys destDir stem ext srcSize (i + 1))
      else False)"
  by pat_completeness auto

termination
  by (relation "measure (\<lambda>(fsys, destDir, stem, ext, srcSize, i). 10000 - i)") auto

declare fileExistsWithSameSize_loop.simps [simp del]

definition fileExistsWithSameSize :: "fs \<Rightarrow> string \<Rightarrow> string \<Rightarrow> bool" where
  "fileExistsWithSameSize fsys srcPath destDir =
     (case os_Stat fsys srcPath of
        Inl err \<Rightarrow> False
      | Inr srcStat \<Rightarrow>
          (let srcSize = fi_Size srcStat;
               baseName = filepath_Base srcPath;
               candidate = filepath_Join destDir baseName;
               exact = (case os_Stat fsys candidate of
                          Inl err \<Rightarrow> False
                        | Inr dstStat \<Rightarrow> fi_Size dstStat = srcSize \<and> 0 < srcSize)
           in if exact then True
              else
                (let ext = filepath_Ext baseName;
                     stem = strings_TrimSuffix baseName ext
                 in fileExistsWithSameSize_loop fsys destDir stem ext srcSize 2)))"

section \<open>Stability detector\<close>

text \<open>
  Durations and clock readings are nanoseconds (\<open>time.Duration\<close>, \<open>int64\<close>), taken as
  integers: \<open>stableFor\<close> only grows by \<open>poll\<close> while fewer than five minutes of
  sleeps have passed, so no sum here leaves the \<open>int64\<close> range for a positive poll
  interval. The file is watched from outside: the \<open>k\<close>-th call of \<open>os.Stat\<close> returns
  \<open>stat k\<close>, an error or the size. The clock advances by \<open>poll\<close> in
  \<open>time.Sleep(poll)\<close> (not at all for a poll interval that is not positive) and by
  \<open>tick\<close> for the rest of one iteration. The result carries the number of samples
  taken next to the error value; a run that never ends is \<open>None\<close>.
\<close>

definition five_minutes :: int where
  "five_minutes = 5 * (60 * 1000000000)"

partial_function (option) waitUntilStable_loop ::
  "(nat \<Rightarrow> error + int) \<Rightarrow> int \<Rightarrow> int \<Rightarrow> int \<Rightarrow> int \<Rightarrow> int \<Rightarrow> int \<Rightarrow> int \<Rightarrow> nat
     \<Rightarrow> (error option \<times> nat) option" where
  "waitUntilStable_loop stat settle poll tick deadline now lastSize stableFor k =
     (if now < deadline then
        (case stat k of
           Inl err \<Rightarrow> Some (Some err, Suc k)
         | Inr sz \<Rightarrow>
             if sz = lastSize then
               (if settle \<le> stableFor + poll then Some (None, Suc k)
                else waitUntilStable_loop stat settle poll tick deadline
                       (now + tick + max poll 0) lastSize (stableFor + poll) (Suc k))
             else waitUntilStable_loop stat settle poll tick deadline
                    (now + tick + max poll 0) sz 0 (Suc k))
      else Some (Some ErrNotStabilized, k))"

declare waitUntilStable_loop.simps [code]

definition waitUntilStable ::
  "(nat \<Rightarrow> error + int) \<Rightarrow> int \<Rightarrow> int \<Rightarrow> int \<Rightarrow> int \<Rightarrow> (error option \<times> nat) option" where
  "waitUntilStable stat settle poll tick now =
     waitUntilStable_loop stat settle poll tick (now + five_minutes) now (- 1) 0 0"

text \<open>The quotient rounded up, for a positive divisor.\<close>

definition ceil_div :: "int \<Rightarrow> int \<Rightarrow> int" where
  "ceil_div a b = - ((- a) div b)"

section \<open>Transfer engine\<close>

text \<open>
  The environment decides which system calls fail. Each field of \<open>faults\<close> injects the
  failure of one call site; a call also fails for a reason the file system shows (a
  missing source, a directory in the way). \<open>copy_fails = Some k\<close> lets \<open>io.Copy\<close>
  fail after \<open>k\<close> bytes have reached the destination. \<open>newdir_size\<close> is the size the
  system reports for a directory it creates.
\<close>

record faults =
  rename_fails :: bool
  open_fails :: bool
  mkdir_fails :: bool
  create_fails :: bool
  copy_fails :: "nat option"
  sync_fails :: bool
  close_fails :: bool
  rename_tmp_fails :: bool
  remove_fails :: bool
  cleanup_fails :: bool
  destdir_fails :: bool
  newdir_size :: nat

definition os_Rename :: "bool \<Rightarrow> string \<Rightarrow> string \<Rightarrow> fs \<Rightarrow> error + fs" where
  "os_Rename fails oldpath newpath fsys =
     (if fails then Inl ErrFault
      else
        (case fsys oldpath of
           None \<Rightarrow> Inl ErrNotExist
         | Some n \<Rightarrow>
             (case fsys newpath of
                Some (Dir k) \<Rightarrow> if oldpath = newpath then Inr fsys else Inl ErrIsDir
              | _ \<Rightarrow> Inr ((fsys(oldpath := None))(newpath \<mapsto> n)))))"

text \<open>An open file is named by its path; \<open>os_Open\<close> returns the error, if any.\<close>

definition os_Open :: "bool \<Rightarrow> string \<Rightarrow> fs \<Rightarrow> error option" where
  "os_Open fails p fsys =
     (if fails then Some ErrFault
      else if fsys p = None then Some ErrNotExist
      else None)"

text \<open>\<open>os.MkdirAll\<close>; the directories above \<open>dir\<close> are not tracked.\<close>

definition ensureDir :: "bool \<Rightarrow> nat \<Rightarrow> string \<Rightarrow> fs \<Rightarrow> error + fs" where
  "ensureDir fails dsz dir fsys =
     (if fails then Inl ErrFault
      else
        (case fsys dir of
           None \<Rightarrow> Inr (fsys(dir \<mapsto> Dir dsz))
         | Some (Dir k) \<Rightarrow> Inr fsys
         | Some (File c) \<Rightarrow> Inl ErrNotDir))"

text \<open>\<open>os.Create\<close> truncates a file that exists.\<close>

definition os_Create :: "bool \<Rightarrow> string \<Rightarrow> fs \<Rightarrow> error + fs" where
  "os_Create fails p fsys =
     (if fails then Inl ErrFault
      else
        (case fsys p of
           Some (Dir k) \<Rightarrow> Inl ErrIsDir
         | _ \<Rightarrow> Inr (fsys(p \<mapsto> File []))))"

text \<open>
  \<open>io.Copy(df, sf)\<close> reads what the source holds when the copy runs and appends it to
  the destination; on a fault only the first bytes arrive.
\<close>

definition io_Copy :: "nat option \<Rightarrow> string \<Rightarrow> string \<Rightarrow> fs \<Rightarrow> error option \<times> fs" where
  "io_Copy fault df sf fsys =
     (case fsys sf of
        None \<Rightarrow> (Some ErrNotExist, fsys)
      | Some (Dir k) \<Rightarrow> (Some ErrIsDir, fsys)
      | Some (File c) \<Rightarrow>
          (case fsys df of
             Some (File d) \<Rightarrow>
               (case fault of
                  None \<Rightarrow> (None, fsys(df \<mapsto> File (d @ c)))
                | Some k \<Rightarrow> (Some ErrFault, fsys(df \<mapsto> File (d @ take k c))))
           | _ \<Rightarrow> (Some ErrNotExist, fsys)))"

definition os_Remove :: "bool \<Rightarrow> string \<Rightarrow> fs \<Rightarrow> error + fs" where
  "os_Remove fails p fsys =
     (if fails then Inl ErrFault
      else if fsys p = None then Inl ErrNotExist
      else Inr (fsys(p := None)))"

text \<open>\<open>_ = os.Remove(df.Name())\<close>: the removal is attempted and its error dropped.\<close>

definition remove_tmp :: "faults \<Rightarrow> string \<Rightarrow> fs \<Rightarrow> fs" where
  "remove_tmp flt p fsys =
     (case os_Remove (cleanup_fails flt) p fsys of Inl err \<Rightarrow> fsys | Inr fsys' \<Rightarrow> fsys')"

text \<open>
  \<open>atomicMove\<close> and \<open>copyTo\<close> return the error (\<open>None\<close> for \<open>nil\<close>) and the states the
  file system went through, the initial one first and the final one last.
\<close>

definition atomicMove :: "faults \<Rightarrow> string \<Rightarrow> string \<Rightarrow> fs \<Rightarrow> error option \<times> fs list" where
  "atomicMove flt src dst s0 =
     (case os_Rename (rename_fails flt) src dst s0 of
        Inr s1 \<Rightarrow> (None, [s0, s1])
      | Inl err0 \<Rightarrow>
     (case os_Open (open_fails flt) src s0 of
        Some err \<Rightarrow> (Some err, [s0])
      | None \<Rightarrow>
     (case ensureDir (mkdir_fails flt) (newdir_size flt) (filepath_Dir dst) s0 of
        Inl errDir \<Rightarrow> (Some errDir, [s0])
      | Inr s1 \<Rightarrow>
     (case os_Create (create_fails flt) (dst @ ''.tmp'') s1 of
        Inl err \<Rightarrow> (Some err, [s0, s1])
      | Inr s2 \<Rightarrow>
     (case io_Copy (copy_fails flt) (dst @ ''.tmp'') src s2 of
        (Some err, s3) \<Rightarrow> (Some err, [s0, s1, s2, s3, remove_tmp flt (dst @ ''.tmp'') s3])
      | (None, s3) \<Rightarrow>
          if sync_fails flt then
            (Some ErrFault, [s0, s1, s2, s3, remove_tmp flt (dst @ ''.tmp'') s3])
          else if close_fails flt then
            (Some ErrFault, [s0, s1, s2, s3, remove_tmp flt (dst @ ''.tmp'') s3])
          else
            (case os_Rename (rename_tmp_fails flt) (dst @ ''.tmp'') dst s3 of
               Inl err \<Rightarrow> (Some err, [s0, s1, s2, s3, remove_tmp flt (dst @ ''.tmp'') s3])
             | Inr s4 \<Rightarrow>
                 (case os_Remove (remove_fails flt) src s4 of
                    Inl err \<Rightarrow> (Some err, [s0, s1, s2, s3, s4])
                  | Inr s5 \<Rightarrow> (None, [s0, s1, s2, s3, s4, s5]))))))))"

definition copyTo :: "faults \<Rightarrow> string \<Rightarrow> string \<Rightarrow> fs \<Rightarrow> error option \<times> fs list" where
  "copyTo flt src dst s0 =
     (case os_Open (open_fails flt) src s0 of
        Some err \<Rightarrow> (Some err, [s0])
      | None \<Rightarrow>
     (case ensureDir (mkdir_fails flt) (newdir_size flt) (filepath_Dir dst) s0 of
        Inl errDir \<Rightarrow> (Some errDir, [s0])
      | Inr s1 \<Rightarrow>
     (case os_Create (create_fails flt) dst s1 of
        Inl err \<Rightarrow> (Some err, [s0, s1])
      | Inr s2 \<Rightarrow>
     (case io_Copy (copy_fails flt) dst src s2 of
        (Some err, s3) \<Rightarrow> (Some err, [s0, s1, s2, s3])
      | (None, s3) \<Rightarrow>
          if sync_fails flt then (Some ErrFault, [s0, s1, s2, s3])
          else if close_fails flt then (Some ErrFault, [s0, s1, s2, s3])
          else (None, [s0, s1, s2, s3])))))"

section \<open>Dispatch coordinator\<close>

record WebDAVConfig =
  URL :: string
  Username :: string
  Password :: string
  SkipTLSVerify :: bool
  TimeoutSec :: int

record Config =
  WatchDir :: string
  Rules :: "Rule list"
  IgnoreExts :: "string list"
  SettleMillis :: int
  PollMillis :: int
  WebDAV :: WebDAVConfig
  LogJSON :: bool
  CreateDestDirs :: bool
  Notifications :: bool

text \<open>One value per log line or notification of \<open>handleFile\<close>.\<close>

datatype event =
    SkipIgnoredExt string
  | SkipNotStable string error
  | NoRuleMatched string
  | EmptyDest string string
  | DestMkdirFailed error
  | DeleteDuplicateFailed error
  | DeletedDuplicate string string
  | SkipAlreadyExists string string
  | MoveFailed error
  | Moved string string string
  | CopyFailed error
  | Copied string string string
  | Notified string string
  | UploadFailed error
  | Uploaded string string

text \<open>
  The state \<open>handleFile\<close> works on: the file system, the in-flight map \<open>processing\<close>
  (path to start time) and the lines logged so far.
\<close>

record world =
  filesys :: fs
  processing :: "string \<Rightarrow> int option"
  logged :: "event list"

text \<open>
  What the surroundings decide during one call: the library tables, the failures of
  system calls, the sizes seen while waiting for stability and the time one polling
  iteration takes, the clock at the call, and the outcome of the upload. Nothing else
  changes the file system while a call runs.
\<close>

record env =
  env_sys :: sys
  env_faults :: faults
  env_sizes :: "nat \<Rightarrow> error + int"
  env_tick :: int
  env_now :: int
  env_upload :: "error option"

definition logf :: "event \<Rightarrow> world \<Rightarrow> world" where
  "logf e w = w\<lparr>logged := logged w @ [e]\<rparr>"

text \<open>\<open>sync.Map\<close>: \<open>LoadOrStore\<close> inserts if absent and tells whether the key was there.\<close>

definition processing_LoadOrStore ::
  "string \<Rightarrow> int \<Rightarrow> (string \<Rightarrow> int option) \<Rightarrow> bool \<times> (string \<Rightarrow> int option)" where
  "processing_LoadOrStore path t m =
     (case m path of Some t0 \<Rightarrow> (True, m) | None \<Rightarrow> (False, m(path \<mapsto> t)))"

definition processing_Delete :: "string \<Rightarrow> (string \<Rightarrow> int option) \<Rightarrow> (string \<Rightarrow> int option)" where
  "processing_Delete path m = m(path := None)"

text \<open>
  \<open>davUpload\<close> reads the local file and hands it to the upload sink, whose outcome
  (an error, a timeout, or success) is the environment's.
\<close>

definition davUpload :: "env \<Rightarrow> string \<Rightarrow> fs \<Rightarrow> error option" where
  "davUpload ev localPath fs0 =
     (case fs0 localPath of
        Some (File data) \<Rightarrow> env_upload ev
      | Some (Dir k) \<Rightarrow> Some ErrIsDir
      | None \<Rightarrow> Some ErrNotExist)"

text \<open>
  The body of \<open>handleFile\<close> after the in-flight guard is written in three parts, in the
  order of the source: \<open>dispatch\<close> runs from the \<open>os.Stat\<close> of the path to the
  duplicate check and goes on with \<open>transfer\<close>, the computation of the destination
  path and the \<open>switch\<close> on the action (\<open>Inl\<close> for the \<open>return\<close> after a failure),
  followed by \<open>post_actions\<close>, the optional upload. The result of \<open>dispatch\<close> is
  \<open>None\<close> when the stability wait never ends.
\<close>

definition transfer ::
  "env \<Rightarrow> string \<Rightarrow> Config \<Rightarrow> Rule \<Rightarrow> string \<Rightarrow> string \<Rightarrow> fs \<Rightarrow> world \<Rightarrow> world + world" where
  "transfer ev path cfg r destDir dst fs1 w =
     (if Action r = ''move'' then
        (case atomicMove (env_faults ev) path dst fs1 of
           (Some err, tr) \<Rightarrow> Inl (logf (MoveFailed err) (w\<lparr>filesys := last tr\<rparr>))
         | (None, tr) \<Rightarrow>
             Inr ((if Notifications cfg
                   then logf (Notified ''downwatch''
                          (''Moved '' @ filepath_Base path @ '' to '' @ destDir))
                   else id)
                  (logf (Moved (filepath_Base path) destDir (Name r))
                     (w\<lparr>filesys := last tr\<rparr>))))
      else if Action r = ''copy'' then
        (case copyTo (env_faults ev) path dst fs1 of
           (Some err, tr) \<Rightarrow> Inl (logf (CopyFailed err) (w\<lparr>filesys := last tr\<rparr>))
         | (None, tr) \<Rightarrow>
             Inr ((if Notifications cfg
                   then logf (Notified ''downwatch''
                          (''Copied '' @ filepath_Base path @ '' to '' @ destDir))
                   else id)
                  (logf (Copied (filepath_Base path) destDir (Name r))
                     (w\<lparr>filesys := last tr\<rparr>))))
      else Inr (w\<lparr>filesys := fs1\<rparr>))"

definition post_actions :: "env \<Rightarrow> bool \<Rightarrow> Rule \<Rightarrow> string \<Rightarrow> world \<Rightarrow> world" where
  "post_actions ev dav r dst w1 =
     (if WebDAVUpload r \<and> dav then
        (case davUpload ev dst (filesys w1) of
           Some err \<Rightarrow> logf (UploadFailed err) w1
         | None \<Rightarrow> logf (Uploaded (filepath_Base dst) (WebDAVPath r)) w1)
      else w1)"

definition dispatch :: "env \<Rightarrow> string \<Rightarrow> Config \<Rightarrow> bool \<Rightarrow> bool \<Rightarrow> world \<Rightarrow> world option" where
  "dispatch ev path cfg dav skipStabilityCheck w =
     (case os_Stat (filesys w) path of
        Inl err \<Rightarrow> Some w
      | Inr st \<Rightarrow>
     if fi_IsDir st then Some w
     else if hasIgnoredExt path (IgnoreExts cfg) then
       Some (logf (SkipIgnoredExt (filepath_Base path)) w)
     else
     (case (if \<not> skipStabilityCheck then
              waitUntilStable (env_sizes ev) (SettleMillis cfg * 1000000)
                (PollMillis cfg * 1000000) (env_tick ev) (env_now ev)
            else Some (None, 0)) of
        None \<Rightarrow> None
      | Some (Some err, k) \<Rightarrow> Some (logf (SkipNotStable (filepath_Base path) err) w)
      | Some (None, k) \<Rightarrow>
     (case chooseRule (env_sys ev) (filesys w) path (Rules cfg) of
        None \<Rightarrow> Some (logf (NoRuleMatched (filepath_Base path)) w)
      | Some r \<Rightarrow>
     if Dest r = [] then Some (logf (EmptyDest (Name r) (filepath_Base path)) w)
     else
     (case (if CreateDestDirs cfg then
              ensureDir (destdir_fails (env_faults ev)) (newdir_size (env_faults ev))
                (Dest r) (filesys w)
            else Inr (filesys w)) of
        Inl err \<Rightarrow> Some (logf (DestMkdirFailed err) w)
      | Inr fs1 \<Rightarrow>
     if SkipDuplicates r \<and> fileExistsWithSameSize fs1 path (Dest r) then
       (if Action r = ''move'' then
          (case os_Remove (remove_fails (env_faults ev)) path fs1 of
             Inl err \<Rightarrow> Some (logf (DeleteDuplicateFailed err) (w\<lparr>filesys := fs1\<rparr>))
           | Inr fs2 \<Rightarrow>
               Some (logf (DeletedDuplicate (filepath_Base path) (Name r)) (w\<lparr>filesys := fs2\<rparr>)))
        else Some (logf (SkipAlreadyExists (filepath_Base path) (Name r)) (w\<lparr>filesys := fs1\<rparr>)))
     else
     (let dst0 = filepath_Join (Dest r) (filepath_Base path);
          dst = (case os_Stat fs1 dst0 of Inr st1 \<Rightarrow> uniquePath fs1 dst0 | Inl err \<Rightarrow> dst0)
      in case transfer ev path cfg r (Dest r) dst fs1 w of
           Inl w1 \<Rightarrow> Some w1
         | Inr w1 \<Rightarrow> Some (post_actions ev dav r dst w1))))))"

text \<open>
  \<open>handleFile\<close>: claim the path or return at once; the deferred
  \<open>processing.Delete\<close> runs on whatever the body returns.
\<close>

definition handleFile :: "env \<Rightarrow> string \<Rightarrow> Config \<Rightarrow> bool \<Rightarrow> bool \<Rightarrow> world \<Rightarrow> world option" where
  "handleFile ev path cfg dav skipStabilityCheck w =
     (case processing_LoadOrStore path (env_now ev) (processing w) of
        (True, m) \<Rightarrow> Some w
      | (False, m) \<Rightarrow>
          (case dispatch ev path cfg dav skipStabilityCheck (w\<lparr>processing := m\<rparr>) of
             None \<Rightarrow> None
           | Some w1 \<Rightarrow> Some (w1\<lparr>processing := processing_Delete path (processing w1)\<rparr>)))"






section \<open>Specification predicates\<close>

text \<open>
  The three criteria of a rule, as the specification words them: some glob pattern
  matches the base name, some configured extension equals the file's extension
  (lower-cased, leading dot stripped) up to case, or the detected content type is known
  and starts with some configured prefix.
\<close>

definition criteria_hold :: "string \<Rightarrow> string \<Rightarrow> Rule \<Rightarrow> bool" where
  "criteria_hold base mt r \<longleftrightarrow>
     (\<exists>g \<in> set (Patterns r). filepath_Match g base)
     \<or> (\<exists>e \<in> set (Extensions r).
           strings_ToLower e = strings_TrimPrefix (strings_ToLower (filepath_Ext base)) ''.'')
     \<or> (mt \<noteq> [] \<and> (\<exists>p \<in> set (MIMEPrefixes r). strings_HasPrefix mt p))"

text \<open>The size \<open>os.Stat\<close> reports for a path, if the path exists.\<close>

definition stat_size :: "fs \<Rightarrow> string \<Rightarrow> int option" where
  "stat_size fsys p = (case os_Stat fsys p of Inl err \<Rightarrow> None | Inr st \<Rightarrow> Some (fi_Size st))"



section \<open>Example inputs\<close>

text \<open>A small extension table, a sniffer that knows nothing, and three rules.\<close>

definition sysW :: sys where
  "sysW =
     \<lparr>mime_TypeByExtension =
        (\<lambda>e. if e = ''.pdf'' then ''application/pdf''
             else if e = ''.jpg'' then ''image/jpeg'' else []),
      http_DetectContentType = (\<lambda>b. ''application/octet-stream'')\<rparr>"

definition rulesW :: "Rule list" where
  "rulesW =
    [\<lparr>Name = ''Images'', Patterns = [], Extensions = [], MIMEPrefixes = [''image/''],
      Action = ''move'', Dest = ''/images'', SkipDuplicates = False,
      WebDAVUpload = False, WebDAVPath = []\<rparr>,
     \<lparr>Name = ''PDFs'', Patterns = [], Extensions = [''pdf''], MIMEPrefixes = [],
      Action = ''move'', Dest = ''/docs'', SkipDuplicates = False,
      WebDAVUpload = False, WebDAVPath = []\<rparr>,
     \<lparr>Name = ''Reports'', Patterns = [''report*''], Extensions = [], MIMEPrefixes = [],
      Action = ''copy'', Dest = ''/reports'', SkipDuplicates = False,
      WebDAVUpload = False, WebDAVPath = []\<rparr>]"

text \<open>
  Destination directories: with \<open>a.txt\<close> and \<open>a (2).txt\<close> taken; with \<open>a.txt\<close>,
  every numbered name up to 9999 and \<open>a.txt.dup\<close> taken; with a same-size file at
  \<open>a (2).txt\<close>; and with a same-size file at \<open>a (3).txt\<close> only.
\<close>

definition fs_two_taken :: fs where
  "fs_two_taken = [''/out/a.txt'' \<mapsto> File ''x'', ''/out/a (2).txt'' \<mapsto> File ''y'']"

definition fs_all_taken :: fs where
  "fs_all_taken p =
     (if p = ''/out/a.txt'' \<or> p = ''/out/a.txt.dup''
         \<or> p \<in> numbered ''/out'' ''a'' ''.txt'' ` {2..<10000}
      then Some (File ''x'') else None)"

definition fs_dup_second :: fs where
  "fs_dup_second =
     [''/in/a.txt'' \<mapsto> File ''hello'', ''/out/a.txt'' \<mapsto> File ''abc'',
      ''/out/a (2).txt'' \<mapsto> File ''world'']"

definition fs_gap :: fs where
  "fs_gap = [''/in/a.txt'' \<mapsto> File ''hello'', ''/out/a (3).txt'' \<mapsto> File ''world'']"

text \<open>
  An environment in which no call fails, a five-byte source file, and a source that
  bears the temporary name of its destination, an existing directory.
\<close>

definition no_faults :: faults where
  "no_faults =
     \<lparr>rename_fails = False, open_fails = False, mkdir_fails = False, create_fails = False,
      copy_fails = None, sync_fails = False, close_fails = False, rename_tmp_fails = False,
      remove_fails = False, cleanup_fails = False, destdir_fails = False,
      newdir_size = 4096\<rparr>"

definition fs_in :: fs where
  "fs_in = [''/in/a.txt'' \<mapsto> File ''hello'']"

definition fs_alias :: fs where
  "fs_alias = [''/in/a.tmp'' \<mapsto> File ''hello'', ''/in/a'' \<mapsto> Dir 4096]"

text \<open>
  A startup scan: a copy rule for \<open>txt\<close> files without duplicate-skip, and a
  destination that already holds the file; \<open>w_busy\<close> has the path claimed.
\<close>

definition env0 :: env where
  "env0 =
     \<lparr>env_sys = sysW, env_faults = no_faults, env_sizes = (\<lambda>k. Inr 5), env_tick = 0,
      env_now = 0, env_upload = None\<rparr>"

definition cfg_copy :: Config where
  "cfg_copy =
     \<lparr>WatchDir = ''/in'',
      Rules = [\<lparr>Name = ''Text'', Patterns = [], Extensions = [''txt''], MIMEPrefixes = [],
                Action = ''copy'', Dest = ''/out'', SkipDuplicates = False,
                WebDAVUpload = False, WebDAVPath = []\<rparr>],
      IgnoreExts = [''.crdownload'', ''.download'', ''.part'', ''.partial''],
      SettleMillis = 1500, PollMillis = 250,
      WebDAV = \<lparr>URL = [], Username = [], Password = [], SkipTLSVerify = False,
                 TimeoutSec = 30\<rparr>,
      LogJSON = False, CreateDestDirs = True, Notifications = True\<rparr>"

definition fs_startup :: fs where
  "fs_startup =
     [''/in/a.txt'' \<mapsto> File ''hello'', ''/out'' \<mapsto> Dir 4096,
      ''/out/a.txt'' \<mapsto> File ''hello'']"

definition w_startup :: world where
  "w_startup = \<lparr>filesys = fs_startup, processing = Map.empty, logged = []\<rparr>"


section \<open>Properties of home expansion\<close>



section \<open>Properties of the classifier\<close>

lemma lower_char_fix: "c \<notin> set ''ABCDEFGHIJKLMNOPQRSTUVWXYZ'' \<Longrightarrow> lower_char c = c"
  by (simp add: lower_char_def)

lemma lower_char_cases:
  "lower_char c = c
   \<or> (c \<in> set ''ABCDEFGHIJKLMNOPQRSTUVWXYZ''
      \<and> lower_char c \<in> set ''abcdefghijklmnopqrstuvwxyz'')"
  by (simp add: lower_char_def)




lemma lower_char_idem: "lower_char (lower_char c) = lower_char c"
proof (cases "lower_char c = c")
  case True
  then show ?thesis by simp
next
  case False
  then have "lower_char c \<in> set ''abcdefghijklmnopqrstuvwxyz''"
    using lower_char_cases [of c] by blast
  then have "lower_char c \<notin> set ''ABCDEFGHIJKLMNOPQRSTUVWXYZ''" by auto
  then show ?thesis by (rule lower_char_fix)
qed




lemma anyPatternMatch_iff:
  "anyPatternMatch name ps \<longleftrightarrow> (\<exists>g \<in> set ps. filepath_Match g name)"
proof -
  have "anyPatternMatch_loop name ps \<longleftrightarrow> (\<exists>g \<in> set ps. filepath_Match g name)"
    by (induction ps) auto
  then show ?thesis by (cases ps) (auto simp: anyPatternMatch_def)
qed

lemma extMatches_iff:
  "extMatches name exts \<longleftrightarrow>
     (\<exists>e \<in> set exts.
        strings_ToLower e = strings_TrimPrefix (strings_ToLower (filepath_Ext name)) ''.'')"
proof -
  have low: "strings_ToLower (strings_TrimPrefix (strings_ToLower x) ''.'')
      = strings_TrimPrefix (strings_ToLower x) ''.''" for x
    by (simp add: strings_TrimPrefix_def strings_ToLower_def drop_map lower_char_idem)
  have "extMatches_loop (strings_TrimPrefix (strings_ToLower x) ''.'') exts \<longleftrightarrow>
     (\<exists>e \<in> set exts. strings_ToLower e = strings_TrimPrefix (strings_ToLower x) ''.'')" for x
    by (induction exts) (auto simp: strings_EqualFold_def low)
  then show ?thesis by (cases exts) (auto simp: extMatches_def)
qed

lemma mimePrefixMatches_iff:
  "mimePrefixMatches mt ps \<longleftrightarrow> mt \<noteq> [] \<and> (\<exists>p \<in> set ps. strings_HasPrefix mt p)"
proof -
  have "mimePrefixMatches_loop mt ps \<longleftrightarrow> (\<exists>p \<in> set ps. strings_HasPrefix mt p)"
    by (induction ps) auto
  then show ?thesis by (cases ps) (auto simp: mimePrefixMatches_def)
qed

lemma rule_test_iff:
  "anyPatternMatch base (Patterns r) \<or> extMatches base (Extensions r)
     \<or> mimePrefixMatches mt (MIMEPrefixes r) \<longleftrightarrow> criteria_hold base mt r"
  by (simp add: criteria_hold_def anyPatternMatch_iff extMatches_iff mimePrefixMatches_iff)

lemma chooseRule_loop_first:
  "(chooseRule_loop base mt rules = None \<and> (\<forall>r \<in> set rules. \<not> criteria_hold base mt r))
   \<or> (\<exists>i<length rules. chooseRule_loop base mt rules = Some (rules ! i)
         \<and> criteria_hold base mt (rules ! i)
         \<and> (\<forall>j<i. \<not> criteria_hold base mt (rules ! j)))"
proof (induction rules)
  case Nil
  show ?case by simp
next
  case (Cons r rs)
  show ?case
  proof (cases "criteria_hold base mt r")
    case True
    then have "chooseRule_loop base mt (r # rs) = Some ((r # rs) ! 0)"
      using rule_test_iff [of base r mt] by simp
    with True show ?thesis by (intro disjI2 exI [of _ 0]) simp
  next
    case False
    then have eq: "chooseRule_loop base mt (r # rs) = chooseRule_loop base mt rs"
      using rule_test_iff [of base r mt] by simp
    from Cons.IH show ?thesis
    proof
      assume "chooseRule_loop base mt rs = None \<and> (\<forall>r \<in> set rs. \<not> criteria_hold base mt r)"
      with eq False show ?thesis by simp
    next
      assume "\<exists>i<length rs. chooseRule_loop base mt rs = Some (rs ! i)
         \<and> criteria_hold base mt (rs ! i) \<and> (\<forall>j<i. \<not> criteria_hold base mt (rs ! j))"
      then obtain i where i: "i < length rs" "chooseRule_loop base mt rs = Some (rs ! i)"
        "criteria_hold base mt (rs ! i)" "\<forall>j<i. \<not> criteria_hold base mt (rs ! j)"
        by blast
      have "\<forall>j<Suc i. \<not> criteria_hold base mt ((r # rs) ! j)"
        using i(4) False by (auto simp: nth_Cons split: nat.splits)
      with i eq show ?thesis by (intro disjI2 exI [of _ "Suc i"]) simp
    qed
  qed
qed

text \<open>
  C3. For every ordered rule list and every path, \<open>chooseRule\<close> either returns no rule,
  and then no rule of the list satisfies any criterion, or returns the rule at the least
  index whose pattern, extension or MIME-prefix criterion holds: no earlier rule
  satisfies one. No-match is the value \<open>None\<close>, not an error.
\<close>

theorem chooseRule_first_match:
  "(chooseRule sy fsys path rules = None
      \<and> (\<forall>r \<in> set rules.
            \<not> criteria_hold (filepath_Base path) (detectMIME sy fsys path) r))
   \<or> (\<exists>i<length rules. chooseRule sy fsys path rules = Some (rules ! i)
         \<and> criteria_hold (filepath_Base path) (detectMIME sy fsys path) (rules ! i)
         \<and> (\<forall>j<i. \<not> criteria_hold (filepath_Base path) (detectMIME sy fsys path) (rules ! j)))"
  using chooseRule_loop_first [of "filepath_Base path" "detectMIME sy fsys path" rules]
  by (simp add: chooseRule_def)

text \<open>
  At \<open>/dl/report.PDF\<close> the first rule does not apply, the second and the third both
  do, and the second is returned.
\<close>

theorem chooseRule_first_match_witness:
  "chooseRule sysW Map.empty ''/dl/report.PDF'' rulesW = Some (rulesW ! 1)
   \<and> \<not> criteria_hold ''report.PDF'' ''application/pdf'' (rulesW ! 0)
   \<and> criteria_hold ''report.PDF'' ''application/pdf'' (rulesW ! 2)
   \<and> (\<exists>i<length rulesW. chooseRule sysW Map.empty ''/dl/report.PDF'' rulesW = Some (rulesW ! i)
         \<and> criteria_hold (filepath_Base ''/dl/report.PDF'')
              (detectMIME sysW Map.empty ''/dl/report.PDF'') (rulesW ! i)
         \<and> (\<forall>j<i. \<not> criteria_hold (filepath_Base ''/dl/report.PDF'')
                       (detectMIME sysW Map.empty ''/dl/report.PDF'') (rulesW ! j)))"
proof -
  have ev: "chooseRule sysW Map.empty ''/dl/report.PDF'' rulesW = Some (rulesW ! 1)"
    by (simp add: chooseRule_def rulesW_def sysW_def detectMIME_def filepath_Base_def
        filepath_Ext_def strings_ToLower_def lower_char_def anyPatternMatch_def
        extMatches_def mimePrefixMatches_def strings_EqualFold_def strings_TrimPrefix_def)
  have c0: "\<not> criteria_hold ''report.PDF'' ''application/pdf'' (rulesW ! 0)"
    by (simp add: criteria_hold_def rulesW_def)
  have c2: "criteria_hold ''report.PDF'' ''application/pdf'' (rulesW ! 2)"
    by (simp add: criteria_hold_def rulesW_def filepath_Match.simps)
  from ev have "chooseRule sysW Map.empty ''/dl/report.PDF'' rulesW \<noteq> None" by simp
  with chooseRule_first_match [of sysW Map.empty "''/dl/report.PDF''" rulesW]
  have "\<exists>i<length rulesW. chooseRule sysW Map.empty ''/dl/report.PDF'' rulesW = Some (rulesW ! i)
         \<and> criteria_hold (filepath_Base ''/dl/report.PDF'')
              (detectMIME sysW Map.empty ''/dl/report.PDF'') (rulesW ! i)
         \<and> (\<forall>j<i. \<not> criteria_hold (filepath_Base ''/dl/report.PDF'')
                       (detectMIME sysW Map.empty ''/dl/report.PDF'') (rulesW ! j))"
    by blast
  with ev c0 c2 show ?thesis by blast
qed





section \<open>Properties of destination naming and duplicate detection\<close>

lemma stat_size_None: "stat_size fsys p = None \<longleftrightarrow> fsys p = None"
  by (auto simp: stat_size_def os_Stat_def split: option.splits node.splits)

lemma os_Stat_Inl: "os_Stat fsys p = Inl e \<Longrightarrow> fsys p = None"
  by (auto simp: os_Stat_def split: option.splits node.splits)

lemma os_Stat_Inr: "os_Stat fsys p = Inr st \<Longrightarrow> fsys p \<noteq> None \<and> stat_size fsys p = Some (fi_Size st)"
  by (auto simp: os_Stat_def stat_size_def split: option.splits node.splits)

lemma uniquePath_loop_free:
  assumes "i \<le> k" "k < 10000" "fsys (numbered dir stem ext k) = None"
    and "\<forall>j. i \<le> j \<and> j < k \<longrightarrow> fsys (numbered dir stem ext j) \<noteq> None"
  shows "uniquePath_loop fsys dst dir stem ext i = numbered dir stem ext k"
  using assms
proof (induction "k - i" arbitrary: i)
  case 0
  then have "i = k" by simp
  with 0 show ?case
    by (subst uniquePath_loop.simps) (simp add: os_Stat_def)
next
  case (Suc d)
  then have lt: "i < k" by simp
  with Suc.prems have ex: "fsys (numbered dir stem ext i) \<noteq> None" by simp
  have "uniquePath_loop fsys dst dir stem ext (i + 1) = numbered dir stem ext k"
    using Suc.hyps(2) Suc.prems lt by (intro Suc.hyps(1)) auto
  with ex lt Suc.prems(2) show ?case
    by (subst uniquePath_loop.simps) (auto simp: os_Stat_def split: option.splits node.splits)
qed

lemma uniquePath_loop_full:
  assumes "i \<le> 10000"
    and "\<forall>j. i \<le> j \<and> j < 10000 \<longrightarrow> fsys (numbered dir stem ext j) \<noteq> None"
  shows "uniquePath_loop fsys dst dir stem ext i = dst @ ''.dup''"
  using assms
proof (induction "10000 - i" arbitrary: i)
  case 0
  then show ?case by (subst uniquePath_loop.simps) simp
next
  case (Suc d)
  then have lt: "i < 10000" by simp
  with Suc.prems have ex: "fsys (numbered dir stem ext i) \<noteq> None" by simp
  have "uniquePath_loop fsys dst dir stem ext (i + 1) = dst @ ''.dup''"
    using Suc.hyps(2) Suc.prems lt by (intro Suc.hyps(1)) auto
  with ex lt show ?case
    by (subst uniquePath_loop.simps) (auto simp: os_Stat_def split: option.splits node.splits)
qed

lemma uniquePath_loop_result:
  "i \<le> 10000 \<Longrightarrow>
   (\<exists>k. i \<le> k \<and> k < 10000 \<and> fsys (numbered dir stem ext k) = None
        \<and> (\<forall>j. i \<le> j \<and> j < k \<longrightarrow> fsys (numbered dir stem ext j) \<noteq> None)
        \<and> uniquePath_loop fsys dst dir stem ext i = numbered dir stem ext k)
   \<or> ((\<forall>j. i \<le> j \<and> j < 10000 \<longrightarrow> fsys (numbered dir stem ext j) \<noteq> None)
        \<and> uniquePath_loop fsys dst dir stem ext i = dst @ ''.dup'')"
proof (cases "\<forall>j. i \<le> j \<and> j < 10000 \<longrightarrow> fsys (numbered dir stem ext j) \<noteq> None")
  case True
  assume "i \<le> 10000"
  with True show ?thesis using uniquePath_loop_full [of i fsys dir stem ext dst] by blast
next
  case False
  define k where "k = (LEAST j. i \<le> j \<and> j < 10000 \<and> fsys (numbered dir stem ext j) = None)"
  from False have ex: "\<exists>j. i \<le> j \<and> j < 10000 \<and> fsys (numbered dir stem ext j) = None" by auto
  then have k: "i \<le> k \<and> k < 10000 \<and> fsys (numbered dir stem ext k) = None"
    unfolding k_def by (rule LeastI_ex)
  have least: "\<forall>j. i \<le> j \<and> j < k \<longrightarrow> fsys (numbered dir stem ext j) \<noteq> None"
  proof (intro allI impI)
    fix j assume j: "i \<le> j \<and> j < k"
    show "fsys (numbered dir stem ext j) \<noteq> None"
    proof
      assume "fsys (numbered dir stem ext j) = None"
      with j k have "i \<le> j \<and> j < 10000 \<and> fsys (numbered dir stem ext j) = None" by simp
      then have "k \<le> j" unfolding k_def by (rule Least_le)
      with j show False by simp
    qed
  qed
  with k show ?thesis using uniquePath_loop_free [of i k fsys dir stem ext dst] by blast
qed

lemma fileExistsWithSameSize_loop_iff:
  "fileExistsWithSameSize_loop fsys destDir stem ext srcSize i \<longleftrightarrow>
     0 < srcSize \<and>
     (\<exists>k. i \<le> k \<and> k < 10000 \<and> stat_size fsys (numbered destDir stem ext k) = Some srcSize
          \<and> (\<forall>j. i \<le> j \<and> j < k \<longrightarrow> fsys (numbered destDir stem ext j) \<noteq> None))"
  (is "?L i \<longleftrightarrow> ?pos \<and> ?R i")
proof (induction fsys destDir stem ext srcSize i rule: fileExistsWithSameSize_loop.induct)
  case (1 fsys destDir stem ext srcSize i)
  let ?c = "numbered destDir stem ext"
  let ?R = "\<lambda>i. \<exists>k. i \<le> k \<and> k < 10000 \<and> stat_size fsys (?c k) = Some srcSize
          \<and> (\<forall>j. i \<le> j \<and> j < k \<longrightarrow> fsys (?c j) \<noteq> None)"
  show ?case
  proof (cases "i < 10000")
    case False
    then show ?thesis by (subst fileExistsWithSameSize_loop.simps) auto
  next
    case lt: True
    show ?thesis
    proof (cases "os_Stat fsys (?c i)")
      case (Inl e)
      then have none: "fsys (?c i) = None" by (rule os_Stat_Inl)
      have "\<not> ?R i"
      proof
        assume "?R i"
        then obtain k where k: "i \<le> k" "stat_size fsys (?c k) = Some srcSize"
          "\<forall>j. i \<le> j \<and> j < k \<longrightarrow> fsys (?c j) \<noteq> None" by blast
        show False
        proof (cases "k = i")
          case True
          with k(2) none show False by (simp add: stat_size_None [symmetric])
        next
          case False
          with k(1) have "i \<le> i \<and> i < k" by simp
          with k(3) none show False by blast
        qed
      qed
      moreover have "\<not> fileExistsWithSameSize_loop fsys destDir stem ext srcSize i"
        using lt Inl by (subst fileExistsWithSameSize_loop.simps) simp
      ultimately show ?thesis by blast
    next
      case (Inr st)
      then have some: "fsys (?c i) \<noteq> None" "stat_size fsys (?c i) = Some (fi_Size st)"
        using os_Stat_Inr by blast+
      show ?thesis
      proof (cases "fi_Size st = srcSize \<and> 0 < srcSize")
        case True
        then have "?R i" using some lt by (intro exI [of _ i]) auto
        moreover have "fileExistsWithSameSize_loop fsys destDir stem ext srcSize i"
          using lt Inr True by (subst fileExistsWithSameSize_loop.simps) simp
        ultimately show ?thesis using True by blast
      next
        case False
        have step: "fileExistsWithSameSize_loop fsys destDir stem ext srcSize i
            = fileExistsWithSameSize_loop fsys destDir stem ext srcSize (i + 1)"
          using lt Inr False by (subst fileExistsWithSameSize_loop.simps) auto
        have IH: "fileExistsWithSameSize_loop fsys destDir stem ext srcSize (i + 1)
            \<longleftrightarrow> 0 < srcSize \<and> ?R (i + 1)"
          using "1.IH" [OF lt refl Inr] False by blast
        have "0 < srcSize \<Longrightarrow> ?R i \<longleftrightarrow> ?R (i + 1)"
        proof
          assume pos: "0 < srcSize" and "?R i"
          then obtain k where k: "i \<le> k" "k < 10000" "stat_size fsys (?c k) = Some srcSize"
            "\<forall>j. i \<le> j \<and> j < k \<longrightarrow> fsys (?c j) \<noteq> None" by blast
          have "k \<noteq> i" using k(3) some(2) False pos by auto
          with k show "?R (i + 1)" by (intro exI [of _ k]) auto
        next
          assume "?R (i + 1)"
          then obtain k where k: "i + 1 \<le> k" "k < 10000" "stat_size fsys (?c k) = Some srcSize"
            "\<forall>j. i + 1 \<le> j \<and> j < k \<longrightarrow> fsys (?c j) \<noteq> None" by blast
          have "\<forall>j. i \<le> j \<and> j < k \<longrightarrow> fsys (?c j) \<noteq> None"
          proof (intro allI impI)
            fix j assume "i \<le> j \<and> j < k"
            then show "fsys (?c j) \<noteq> None" using k(4) some(1) by (cases "j = i") auto
          qed
          with k show "?R i" by (intro exI [of _ k]) auto
        qed
        with step IH show ?thesis by blast
      qed
    qed
  qed
qed

text \<open>
  C7 (as the code has it). \<open>uniquePath\<close> returns the path itself when nothing has that
  name; otherwise the first unoccupied name in the sequence \<open>name (2).ext\<close>,
  \<open>name (3).ext\<close>, ..., \<open>name (9999).ext\<close>, scanning upwards; in both cases the
  returned path names nothing that exists. Only when the path and all numbered names up
  to 9999 are occupied does it return the path with \<open>.dup\<close> appended, and that name is
  not checked.
\<close>

theorem uniquePath_first_free:
  "(fsys dst = None \<and> uniquePath fsys dst = dst)
   \<or> (fsys dst \<noteq> None
       \<and> (\<exists>k. 2 \<le> k \<and> k < 10000
              \<and> (\<forall>j. 2 \<le> j \<and> j < k \<longrightarrow>
                    fsys (numbered (filepath_Dir dst)
                            (strings_TrimSuffix (filepath_Base dst) (filepath_Ext (filepath_Base dst)))
                            (filepath_Ext (filepath_Base dst)) j) \<noteq> None)
              \<and> uniquePath fsys dst =
                  numbered (filepath_Dir dst)
                    (strings_TrimSuffix (filepath_Base dst) (filepath_Ext (filepath_Base dst)))
                    (filepath_Ext (filepath_Base dst)) k
              \<and> fsys (uniquePath fsys dst) = None))
   \<or> (fsys dst \<noteq> None
       \<and> (\<forall>j. 2 \<le> j \<and> j < 10000 \<longrightarrow>
              fsys (numbered (filepath_Dir dst)
                      (strings_TrimSuffix (filepath_Base dst) (filepath_Ext (filepath_Base dst)))
                      (filepath_Ext (filepath_Base dst)) j) \<noteq> None)
       \<and> uniquePath fsys dst = dst @ ''.dup'')"
proof (cases "fsys dst")
  case None
  then show ?thesis by (simp add: uniquePath_def os_Stat_def)
next
  case (Some n)
  let ?dir = "filepath_Dir dst"
  let ?ext = "filepath_Ext (filepath_Base dst)"
  let ?stem = "strings_TrimSuffix (filepath_Base dst) ?ext"
  have u: "uniquePath fsys dst = uniquePath_loop fsys dst ?dir ?stem ?ext 2"
    using Some by (cases n) (simp_all add: uniquePath_def os_Stat_def Let_def)
  from uniquePath_loop_result [of 2 fsys ?dir ?stem ?ext dst] show ?thesis
  proof
    show "(2::nat) \<le> 10000" by simp
  next
    assume "\<exists>k. 2 \<le> k \<and> k < 10000 \<and> fsys (numbered ?dir ?stem ?ext k) = None
        \<and> (\<forall>j. 2 \<le> j \<and> j < k \<longrightarrow> fsys (numbered ?dir ?stem ?ext j) \<noteq> None)
        \<and> uniquePath_loop fsys dst ?dir ?stem ?ext 2 = numbered ?dir ?stem ?ext k"
    then show ?thesis using Some u by auto
  next
    assume "(\<forall>j. 2 \<le> j \<and> j < 10000 \<longrightarrow> fsys (numbered ?dir ?stem ?ext j) \<noteq> None)
        \<and> uniquePath_loop fsys dst ?dir ?stem ?ext 2 = dst @ ''.dup''"
    then show ?thesis using Some u by auto
  qed
qed

lemmas path_eval =
  filepath_Dir_def filepath_Base_def filepath_Ext_def strings_TrimSuffix_def
  strings_HasSuffix_def numbered_def filepath_Join_def filepath_Clean_def clean_elem_def
  itoa.simps digit_char_def

theorem uniquePath_first_free_witness:
  "fs_two_taken ''/out/a.txt'' \<noteq> None \<and> fs_two_taken ''/out/a (2).txt'' \<noteq> None
   \<and> fs_two_taken ''/out/a (3).txt'' = None
   \<and> uniquePath fs_two_taken ''/out/a.txt'' = ''/out/a (3).txt''"
proof -
  have ev: "fs_two_taken ''/out/a.txt'' \<noteq> None \<and> fs_two_taken ''/out/a (2).txt'' \<noteq> None
      \<and> fs_two_taken ''/out/a (3).txt'' = None
      \<and> numbered (filepath_Dir ''/out/a.txt'')
           (strings_TrimSuffix (filepath_Base ''/out/a.txt'')
              (filepath_Ext (filepath_Base ''/out/a.txt'')))
           (filepath_Ext (filepath_Base ''/out/a.txt'')) 2 = ''/out/a (2).txt''
      \<and> numbered (filepath_Dir ''/out/a.txt'')
           (strings_TrimSuffix (filepath_Base ''/out/a.txt'')
              (filepath_Ext (filepath_Base ''/out/a.txt'')))
           (filepath_Ext (filepath_Base ''/out/a.txt'')) 3 = ''/out/a (3).txt''"
    by (simp add: fs_two_taken_def path_eval)
  let ?c = "numbered (filepath_Dir ''/out/a.txt'')
           (strings_TrimSuffix (filepath_Base ''/out/a.txt'')
              (filepath_Ext (filepath_Base ''/out/a.txt'')))
           (filepath_Ext (filepath_Base ''/out/a.txt''))"
  from uniquePath_first_free [of fs_two_taken "''/out/a.txt''"] ev
  consider (free) k where "2 \<le> k"
      "\<forall>j. 2 \<le> j \<and> j < k \<longrightarrow> fs_two_taken (?c j) \<noteq> None"
      "uniquePath fs_two_taken ''/out/a.txt'' = ?c k" "fs_two_taken (?c k) = None"
    | (full) "\<forall>j. 2 \<le> j \<and> j < 10000 \<longrightarrow> fs_two_taken (?c j) \<noteq> None"
    by auto
  then have "uniquePath fs_two_taken ''/out/a.txt'' = ''/out/a (3).txt''"
  proof cases
    case free
    have "k \<noteq> 2" using free(4) ev by auto
    moreover have "\<not> 3 < k"
    proof
      assume "3 < k"
      with free(2) have "fs_two_taken (?c 3) \<noteq> None" by simp
      with ev show False by simp
    qed
    ultimately have "k = 3" using free(1) by arith
    with free(3) ev show ?thesis by simp
  next
    case full
    then have "fs_two_taken (?c 3) \<noteq> None" by simp
    with ev show ?thesis by simp
  qed
  with ev show ?thesis by simp
qed

text \<open>
  A directory in which \<open>a.txt\<close>, every numbered name up to 9999 and \<open>a.txt.dup\<close> are
  all taken: the path returned names an existing file.
\<close>

theorem uniquePath_existing_counterexample:
  "uniquePath fs_all_taken ''/out/a.txt'' = ''/out/a.txt.dup''
   \<and> fs_all_taken (uniquePath fs_all_taken ''/out/a.txt'') = Some (File ''x'')"
proof -
  have full: "\<forall>j. 2 \<le> j \<and> j < 10000 \<longrightarrow> fs_all_taken (numbered ''/out'' ''a'' ''.txt'' j) \<noteq> None"
  proof (intro allI impI)
    fix j :: nat
    assume "2 \<le> j \<and> j < 10000"
    then have "numbered ''/out'' ''a'' ''.txt'' j \<in> numbered ''/out'' ''a'' ''.txt'' ` {2..<10000}"
      by (intro imageI) simp
    then show "fs_all_taken (numbered ''/out'' ''a'' ''.txt'' j) \<noteq> None"
      unfolding fs_all_taken_def by (simp del: image_iff)
  qed
  have "uniquePath fs_all_taken ''/out/a.txt''
      = uniquePath_loop fs_all_taken ''/out/a.txt'' ''/out'' ''a'' ''.txt'' 2"
    by (simp add: uniquePath_def os_Stat_def fs_all_taken_def filepath_Dir_def
        filepath_Base_def filepath_Ext_def strings_TrimSuffix_def strings_HasSuffix_def
        filepath_Clean_def clean_elem_def Let_def)
  also have "\<dots> = ''/out/a.txt'' @ ''.dup''"
    using full by (intro uniquePath_loop_full) simp_all
  finally have r: "uniquePath fs_all_taken ''/out/a.txt'' = ''/out/a.txt.dup''" by simp
  show ?thesis unfolding r by (simp add: fs_all_taken_def)
qed

text \<open>
  C9 (as the code has it). \<open>fileExistsWithSameSize\<close> reports a duplicate if and only if
  the source can be examined, its size is greater than zero, and either the identical
  base name exists in the destination directory with that size, or some numbered
  variant \<open>name (k).ext\<close> with \<open>2 \<le> k < 10000\<close> has that size and every lower-numbered
  variant exists: the scan stops at the first missing number.
\<close>

theorem fileExistsWithSameSize_iff:
  "fileExistsWithSameSize fsys srcPath destDir \<longleftrightarrow>
     (\<exists>sz. 0 < sz \<and> stat_size fsys srcPath = Some sz
        \<and> (stat_size fsys (filepath_Join destDir (filepath_Base srcPath)) = Some sz
           \<or> (\<exists>k. 2 \<le> k \<and> k < 10000
                 \<and> stat_size fsys
                      (numbered destDir
                         (strings_TrimSuffix (filepath_Base srcPath)
                            (filepath_Ext (filepath_Base srcPath)))
                         (filepath_Ext (filepath_Base srcPath)) k) = Some sz
                 \<and> (\<forall>j. 2 \<le> j \<and> j < k \<longrightarrow>
                       fsys (numbered destDir
                               (strings_TrimSuffix (filepath_Base srcPath)
                                  (filepath_Ext (filepath_Base srcPath)))
                               (filepath_Ext (filepath_Base srcPath)) j) \<noteq> None))))"
proof (cases "os_Stat fsys srcPath")
  case (Inl e)
  then have "stat_size fsys srcPath = None" by (simp add: stat_size_def)
  with Inl show ?thesis by (simp add: fileExistsWithSameSize_def)
next
  case (Inr st)
  then have sz: "stat_size fsys srcPath = Some (fi_Size st)" by (simp add: stat_size_def)
  let ?cand = "filepath_Join destDir (filepath_Base srcPath)"
  have exact: "(case os_Stat fsys ?cand of Inl err \<Rightarrow> False
        | Inr dstStat \<Rightarrow> fi_Size dstStat = fi_Size st \<and> 0 < fi_Size st)
      \<longleftrightarrow> 0 < fi_Size st \<and> stat_size fsys ?cand = Some (fi_Size st)"
    by (auto simp: stat_size_def split: sum.splits)
  show ?thesis
    using Inr sz exact
    by (auto simp: fileExistsWithSameSize_def Let_def fileExistsWithSameSize_loop_iff)
qed

theorem fileExistsWithSameSize_iff_witness:
  "stat_size fs_dup_second ''/in/a.txt'' = Some 5
   \<and> stat_size fs_dup_second ''/out/a.txt'' = Some 3
   \<and> stat_size fs_dup_second ''/out/a (2).txt'' = Some 5
   \<and> fileExistsWithSameSize fs_dup_second ''/in/a.txt'' ''/out''"
proof -
  have s: "stat_size fs_dup_second ''/in/a.txt'' = Some 5"
    "stat_size fs_dup_second ''/out/a.txt'' = Some 3"
    "stat_size fs_dup_second ''/out/a (2).txt'' = Some 5"
    by (simp_all add: stat_size_def os_Stat_def fs_dup_second_def)
  have n: "numbered ''/out'' (strings_TrimSuffix (filepath_Base ''/in/a.txt'')
              (filepath_Ext (filepath_Base ''/in/a.txt'')))
            (filepath_Ext (filepath_Base ''/in/a.txt'')) 2 = ''/out/a (2).txt''"
    by (simp add: path_eval)
  have "\<exists>k. 2 \<le> k \<and> k < 10000
      \<and> stat_size fs_dup_second (numbered ''/out''
            (strings_TrimSuffix (filepath_Base ''/in/a.txt'')
               (filepath_Ext (filepath_Base ''/in/a.txt'')))
            (filepath_Ext (filepath_Base ''/in/a.txt'')) k) = Some 5
      \<and> (\<forall>j. 2 \<le> j \<and> j < k \<longrightarrow>
            fs_dup_second (numbered ''/out''
               (strings_TrimSuffix (filepath_Base ''/in/a.txt'')
                  (filepath_Ext (filepath_Base ''/in/a.txt'')))
               (filepath_Ext (filepath_Base ''/in/a.txt'')) j) \<noteq> None)"
    using n s(3) by (intro exI [of _ 2]) auto
  with s(1) have "fileExistsWithSameSize fs_dup_second ''/in/a.txt'' ''/out''"
    unfolding fileExistsWithSameSize_iff [of fs_dup_second "''/in/a.txt''" "''/out''"]
    by (intro exI [of _ 5]) simp
  with s show ?thesis by simp
qed

text \<open>
  A destination holding only \<open>a (3).txt\<close>, of the source's size: a numbered variant
  with equal, positive size exists, and no duplicate is reported.
\<close>

theorem fileExistsWithSameSize_gap_counterexample:
  "stat_size fs_gap ''/in/a.txt'' = Some 5
   \<and> numbered ''/out'' ''a'' ''.txt'' 3 = ''/out/a (3).txt''
   \<and> stat_size fs_gap ''/out/a (3).txt'' = Some 5
   \<and> \<not> fileExistsWithSameSize fs_gap ''/in/a.txt'' ''/out''"
  by (simp add: stat_size_def os_Stat_def fs_gap_def fileExistsWithSameSize_def
      fileExistsWithSameSize_loop.simps path_eval)

section \<open>Properties of the stability detector\<close>

lemma ceil_div_bounds:
  assumes "0 < b"
  shows "a \<le> ceil_div a b * b" and "(ceil_div a b - 1) * b < a"
proof -
  define q where "q = (- a) div b"
  define r where "r = (- a) mod b"
  have eq: "- a = b * q + r" unfolding q_def r_def by simp
  have r: "0 \<le> r" "r < b" using assms unfolding r_def by simp_all
  have c: "ceil_div a b = - q" by (simp add: ceil_div_def q_def)
  show "a \<le> ceil_div a b * b" using eq r by (simp add: c mult.commute)
  show "(ceil_div a b - 1) * b < a" using eq r by (simp add: c algebra_simps)
qed

lemma stable_run:
  assumes poll: "0 < poll" and tick: "0 \<le> tick"
    and const: "\<forall>k. stat k = Inr c"
    and reach: "settle \<le> int n * poll"
    and first: "\<forall>k. 1 \<le> k \<and> k < n \<longrightarrow> int k * poll < settle"
    and fits: "int n * (poll + tick) < D"
    and k: "1 \<le> k" "k \<le> n"
  shows "waitUntilStable_loop stat settle poll tick (t0 + D)
           (t0 + int k * (poll + tick)) c (int k * poll - poll) k = Some (None, Suc n)"
  using k
proof (induction "n - k" arbitrary: k)
  case 0
  then have kn: "k = n" by simp
  show ?case
    using fits reach const kn
    by (subst waitUntilStable_loop.simps) simp
next
  case (Suc d)
  then have lt: "k < n" by simp
  have "int k * (poll + tick) \<le> int n * (poll + tick)"
    using lt poll tick by (intro mult_right_mono) simp_all
  with fits have now: "t0 + int k * (poll + tick) < t0 + D" by simp
  have notyet: "\<not> settle \<le> int k * poll" using first Suc.prems(1) lt by (simp add: not_le)
  have IH0: "waitUntilStable_loop stat settle poll tick (t0 + D)
           (t0 + int (Suc k) * (poll + tick)) c (int (Suc k) * poll - poll) (Suc k)
        = Some (None, Suc n)"
    using Suc.hyps(2) lt by (intro Suc.hyps(1)) simp_all
  have e1: "int (Suc k) * poll - poll = int k * poll" by (simp add: algebra_simps)
  have e2: "t0 + int k * (poll + tick) + tick + max poll 0
      = t0 + int (Suc k) * (poll + tick)"
    using poll by (simp add: algebra_simps)
  have IH: "waitUntilStable_loop stat settle poll tick (t0 + D)
           (t0 + int k * (poll + tick) + tick + max poll 0) c (int k * poll) (Suc k)
        = Some (None, Suc n)"
    using IH0 by (simp only: e1 e2)
  show ?case
    using now const notyet IH
    by (subst waitUntilStable_loop.simps) simp
qed

lemma changing_run:
  assumes step: "0 < step" and step_def: "step = tick + max poll 0"
    and sizes: "\<forall>k. stat k = Inr (f k)" and change: "\<forall>k. f (Suc k) \<noteq> f k"
    and before: "\<forall>k. k < m \<longrightarrow> int k * step < D"
    and after: "D \<le> int m * step"
    and k: "k \<le> m" "prev \<noteq> f k"
  shows "waitUntilStable_loop stat settle poll tick (t0 + D)
           (t0 + int k * step) prev 0 k = Some (Some ErrNotStabilized, m)"
  using k
proof (induction "m - k" arbitrary: k prev)
  case 0
  then have "k = m" by simp
  with after show ?case by (subst waitUntilStable_loop.simps) simp
next
  case (Suc d)
  then have lt: "k < m" by simp
  with before have now: "t0 + int k * step < t0 + D" by simp
  have IH: "waitUntilStable_loop stat settle poll tick (t0 + D)
           (t0 + int (Suc k) * step) (f k) 0 (Suc k) = Some (Some ErrNotStabilized, m)"
  proof (intro Suc.hyps(1))
    show "d = m - Suc k" using Suc.hyps(2) by simp
    show "Suc k \<le> m" using lt by simp
    show "f k \<noteq> f (Suc k)" using change by metis
  qed
  have e: "t0 + int k * step + tick + max poll 0 = t0 + int (Suc k) * step"
    using step_def by (simp add: algebra_simps)
  have IH': "waitUntilStable_loop stat settle poll tick (t0 + D)
           (t0 + int k * step + tick + max poll 0) (f k) 0 (Suc k)
        = Some (Some ErrNotStabilized, m)"
    using IH by (simp only: e)
  show ?case
    using now sizes Suc.prems(2) IH'
    by (subst waitUntilStable_loop.simps) simp
qed

text \<open>
  C6 (as the code has it). With a positive poll interval, a file whose size is the same
  at every sample is declared stable at sample number \<open>1 + max 1 (ceil_div settle poll)\<close>
  (the first sample only records the baseline), provided that many poll cycles end
  before the five-minute ceiling. A file whose size differs at every sample is never
  declared stable: the wait fails with the timeout condition at the first clock reading
  five minutes or more after the call's start, whatever the settle duration.
\<close>

theorem waitUntilStable_samples:
  "(0 < poll \<and> 0 \<le> tick \<and> 0 \<le> c \<and> (\<forall>k. stat k = Inr c)
      \<and> max 1 (ceil_div settle poll) * (poll + tick) < five_minutes
      \<longrightarrow> waitUntilStable stat settle poll tick now
            = Some (None, Suc (nat (max 1 (ceil_div settle poll)))))
   \<and> (0 < poll \<and> 0 \<le> tick \<and> 0 \<le> f 0 \<and> (\<forall>k. stat k = Inr (f k))
      \<and> (\<forall>k. f (Suc k) \<noteq> f k)
      \<longrightarrow> waitUntilStable stat settle poll tick now
            = Some (Some ErrNotStabilized, nat (ceil_div five_minutes (poll + tick))))"
proof (intro conjI impI)
  assume a: "0 < poll \<and> 0 \<le> tick \<and> 0 \<le> c \<and> (\<forall>k. stat k = Inr c)
      \<and> max 1 (ceil_div settle poll) * (poll + tick) < five_minutes"
  define n where "n = nat (max 1 (ceil_div settle poll))"
  have n: "int n = max 1 (ceil_div settle poll)" "1 \<le> n" by (simp_all add: n_def)
  have "ceil_div settle poll * poll \<le> int n * poll"
    using a n(1) by (intro mult_right_mono) simp_all
  moreover have "settle \<le> ceil_div settle poll * poll"
    using ceil_div_bounds(1) [of poll settle] a by blast
  ultimately have reach: "settle \<le> int n * poll" by (rule order_trans [rotated])
  have first: "\<forall>k. 1 \<le> k \<and> k < n \<longrightarrow> int k * poll < settle"
  proof (intro allI impI)
    fix k assume k: "1 \<le> k \<and> k < n"
    then have "2 \<le> int n" by simp
    then have "int n = ceil_div settle poll" using n(1) by (simp add: max_def split: if_splits)
    with k have "int k \<le> ceil_div settle poll - 1" by simp
    then have "int k * poll \<le> (ceil_div settle poll - 1) * poll"
      using a by (intro mult_right_mono) simp_all
    moreover have "(ceil_div settle poll - 1) * poll < settle"
      using ceil_div_bounds(2) [of poll settle] a by blast
    ultimately show "int k * poll < settle" by (rule le_less_trans)
  qed
  have fits: "int n * (poll + tick) < five_minutes" using a n(1) by simp
  have run: "waitUntilStable_loop stat settle poll tick (now + five_minutes)
      (now + int 1 * (poll + tick)) c (int 1 * poll - poll) 1 = Some (None, Suc n)"
    using a reach first fits n(2)
    by (intro stable_run) simp_all
  have e: "now + int 1 * (poll + tick) = now + tick + max poll 0" "int 1 * poll - poll = 0"
    using a by simp_all
  have run': "waitUntilStable_loop stat settle poll tick (now + five_minutes)
      (now + tick + max poll 0) c 0 (Suc 0) = Some (None, Suc n)"
    using run unfolding e by simp
  have pos: "0 < five_minutes" by (simp add: five_minutes_def)
  have "waitUntilStable stat settle poll tick now = Some (None, Suc n)"
    unfolding waitUntilStable_def
    using a pos run' by (subst waitUntilStable_loop.simps) simp
  then show "waitUntilStable stat settle poll tick now
      = Some (None, Suc (nat (max 1 (ceil_div settle poll))))"
    by (simp add: n_def)
next
  assume a: "0 < poll \<and> 0 \<le> tick \<and> 0 \<le> f 0 \<and> (\<forall>k. stat k = Inr (f k))
      \<and> (\<forall>k. f (Suc k) \<noteq> f k)"
  define step where "step = tick + max poll 0"
  have step: "0 < step" "step = poll + tick" using a by (simp_all add: step_def)
  define m where "m = nat (ceil_div five_minutes step)"
  have pos: "0 < five_minutes" by (simp add: five_minutes_def)
  have up: "five_minutes \<le> ceil_div five_minutes step * step"
    and low: "(ceil_div five_minutes step - 1) * step < five_minutes"
    using ceil_div_bounds [of step five_minutes] step(1) by simp_all
  have cpos: "0 < ceil_div five_minutes step"
  proof (rule ccontr)
    assume "\<not> 0 < ceil_div five_minutes step"
    then have "ceil_div five_minutes step * step \<le> 0"
      using step(1) by (intro mult_nonpos_nonneg) simp_all
    with up pos show False by simp
  qed
  then have m: "int m = ceil_div five_minutes step" by (simp add: m_def)
  have before: "\<forall>k. k < m \<longrightarrow> int k * step < five_minutes"
  proof (intro allI impI)
    fix k assume "k < m"
    then have "int k \<le> ceil_div five_minutes step - 1" using m by simp
    then have "int k * step \<le> (ceil_div five_minutes step - 1) * step"
      using step(1) by (intro mult_right_mono) simp_all
    then show "int k * step < five_minutes" using low by (rule le_less_trans)
  qed
  have after: "five_minutes \<le> int m * step" using up m by simp
  have "waitUntilStable_loop stat settle poll tick (now + five_minutes)
      (now + int 0 * step) (- 1) 0 0 = Some (Some ErrNotStabilized, m)"
    using step(1) step_def a before after
    by (intro changing_run [where f = f]) simp_all
  then have "waitUntilStable stat settle poll tick now = Some (Some ErrNotStabilized, m)"
    by (simp add: waitUntilStable_def)
  then show "waitUntilStable stat settle poll tick now
      = Some (Some ErrNotStabilized, nat (ceil_div five_minutes (poll + tick)))"
    by (simp add: m_def step(2))
qed

theorem waitUntilStable_samples_witness:
  "waitUntilStable (\<lambda>k. Inr 10) 300000000 150000000 0 0 = Some (None, 3)
   \<and> waitUntilStable (\<lambda>k. Inr (int k)) 300000000 60000000000 0 0
       = Some (Some ErrNotStabilized, 5)"
proof -
  have c: "max 1 (ceil_div 300000000 150000000) = 2"
    "ceil_div five_minutes (60000000000 + 0) = 5"
    by (simp_all add: ceil_div_def five_minutes_def)
  have h1: "(0::int) < 150000000 \<and> (0::int) \<le> 0 \<and> (0::int) \<le> 10
      \<and> (\<forall>k::nat. (Inr 10 :: error + int) = Inr 10)
      \<and> max 1 (ceil_div 300000000 150000000) * (150000000 + 0) < five_minutes"
    unfolding c by (simp add: five_minutes_def)
  have h2: "(0::int) < 60000000000 \<and> (0::int) \<le> 0 \<and> 0 \<le> int 0
      \<and> (\<forall>k::nat. (Inr (int k) :: error + int) = Inr (int k))
      \<and> (\<forall>k. int (Suc k) \<noteq> int k)"
    by simp
  from waitUntilStable_samples
    [of 150000000 0 10 "\<lambda>k. Inr 10" 300000000 0 "\<lambda>k. 0", THEN conjunct1, rule_format, OF h1]
  have r1: "waitUntilStable (\<lambda>k. Inr 10) 300000000 150000000 0 0 = Some (None, 3)"
    unfolding c by simp
  from waitUntilStable_samples
    [of 60000000000 0 0 "\<lambda>k. Inr (int k)" 300000000 0 "\<lambda>k. int k", THEN conjunct2,
     rule_format, OF h2]
  have r2: "waitUntilStable (\<lambda>k. Inr (int k)) 300000000 60000000000 0 0
       = Some (Some ErrNotStabilized, 5)"
    unfolding c by simp
  from r1 r2 show ?thesis by simp
qed

text \<open>
  With a settle duration of 300 ms and a poll interval of 150 ms a constant file is
  declared stable at the third sample, not the second; with a settle duration of ten
  minutes it is not declared stable at all.
\<close>

theorem waitUntilStable_samples_counterexample:
  "ceil_div 300000000 150000000 = 2
   \<and> waitUntilStable (\<lambda>k. Inr 10) 300000000 150000000 0 0 = Some (None, 3)
   \<and> waitUntilStable (\<lambda>k. Inr 10) 600000000000 300000000000 0 0
       = Some (Some ErrNotStabilized, 1)"
  by (simp add: waitUntilStable_def waitUntilStable_loop.simps five_minutes_def ceil_div_def)

section \<open>Properties of the transfer engine\<close>

lemma ensureDir_Inr:
  "ensureDir f k d s = Inr s' \<Longrightarrow> s' = s \<or> (s d = None \<and> s' = s(d \<mapsto> Dir k))"
  by (auto simp: ensureDir_def split: if_splits option.splits node.splits)

lemma os_Create_Inr: "os_Create f p s = Inr s' \<Longrightarrow> s' = s(p \<mapsto> File [])"
  by (auto simp: os_Create_def split: if_splits option.splits node.splits)

lemma io_Copy_cases:
  "io_Copy ft df sf s = (r, s') \<Longrightarrow>
     (r \<noteq> None \<and> s' = s)
     \<or> (\<exists>c d. s sf = Some (File c) \<and> s df = Some (File d)
          \<and> ((r = None \<and> ft = None \<and> s' = s(df \<mapsto> File (d @ c)))
             \<or> (\<exists>k. r = Some ErrFault \<and> ft = Some k \<and> s' = s(df \<mapsto> File (d @ take k c)))))"
  by (auto simp: io_Copy_def split: option.splits node.splits)

lemma os_Rename_Inr:
  "os_Rename f a b s = Inr s' \<Longrightarrow> \<exists>n. s a = Some n \<and> s' = (s(a := None))(b \<mapsto> n)"
  by (auto simp: os_Rename_def split: if_splits option.splits node.splits)

lemma os_Remove_Inr: "os_Remove f p s = Inr s' \<Longrightarrow> s' = s(p := None)"
  by (auto simp: os_Remove_def split: if_splits)

lemma remove_tmp_cases: "remove_tmp flt p s = s \<or> remove_tmp flt p s = s(p := None)"
  by (auto simp: remove_tmp_def os_Remove_def)

lemma remove_tmp_ok: "\<not> cleanup_fails flt \<Longrightarrow> remove_tmp flt p s p = None"
  by (auto simp: remove_tmp_def os_Remove_def)

lemma ensureDir_file:
  "ensureDir f k d s = Inr s' \<Longrightarrow> s' p = Some (File c) \<longleftrightarrow> s p = Some (File c)"
  by (auto dest!: ensureDir_Inr split: if_splits)

lemma ensureDir_keeps: "ensureDir f k d s = Inr s' \<Longrightarrow> s p \<noteq> None \<Longrightarrow> s' p = s p"
  by (auto dest!: ensureDir_Inr)

lemma os_Create_other: "os_Create f q s = Inr s' \<Longrightarrow> p \<noteq> q \<Longrightarrow> s' p = s p"
  by (auto dest!: os_Create_Inr)

lemma os_Create_at: "os_Create f q s = Inr s' \<Longrightarrow> s' q = Some (File [])"
  by (auto dest!: os_Create_Inr)

lemma io_Copy_other: "io_Copy ft q sf s = (r, s') \<Longrightarrow> p \<noteq> q \<Longrightarrow> s' p = s p"
  by (auto dest!: io_Copy_cases)

lemma io_Copy_full:
  "io_Copy ft q sf s = (None, s') \<Longrightarrow> s q = Some (File []) \<Longrightarrow> s' q = s sf"
  by (auto dest!: io_Copy_cases)


lemma remove_tmp_other: "p \<noteq> q \<Longrightarrow> remove_tmp flt q s p = s p"
  using remove_tmp_cases [of flt q s] by auto

lemma os_Rename_at: "os_Rename f a b s = Inr s' \<Longrightarrow> s' b = s a \<and> s a \<noteq> None"
  by (auto dest!: os_Rename_Inr)

lemma os_Rename_old: "os_Rename f a b s = Inr s' \<Longrightarrow> a \<noteq> b \<Longrightarrow> s' a = None"
  by (auto dest!: os_Rename_Inr)

lemma os_Rename_other:
  "os_Rename f a b s = Inr s' \<Longrightarrow> p \<noteq> a \<Longrightarrow> p \<noteq> b \<Longrightarrow> s' p = s p"
  by (auto dest!: os_Rename_Inr)

lemma tmp_neq: "dst \<noteq> dst @ ''.tmp''"
  by simp

text \<open>Every run of \<open>atomicMove\<close> has one of five shapes.\<close>

lemma atomicMove_runs:
  assumes "atomicMove flt src dst s0 = (r, tr)"
  obtains
    (renamed) s1 where "os_Rename (rename_fails flt) src dst s0 = Inr s1" "r = None"
      "tr = [s0, s1]"
  | (early) "r \<noteq> None" "tr = [s0]"
  | (nocreate) s1 where "s0 src \<noteq> None"
      "ensureDir (mkdir_fails flt) (newdir_size flt) (filepath_Dir dst) s0 = Inr s1"
      "r \<noteq> None" "tr = [s0, s1]"
  | (cleaned) s1 s2 s3 e where "s0 src \<noteq> None"
      "ensureDir (mkdir_fails flt) (newdir_size flt) (filepath_Dir dst) s0 = Inr s1"
      "os_Create (create_fails flt) (dst @ ''.tmp'') s1 = Inr s2"
      "io_Copy (copy_fails flt) (dst @ ''.tmp'') src s2 = (e, s3)"
      "r \<noteq> None" "tr = [s0, s1, s2, s3, remove_tmp flt (dst @ ''.tmp'') s3]"
  | (placed) s1 s2 s3 s4 where "s0 src \<noteq> None"
      "ensureDir (mkdir_fails flt) (newdir_size flt) (filepath_Dir dst) s0 = Inr s1"
      "os_Create (create_fails flt) (dst @ ''.tmp'') s1 = Inr s2"
      "io_Copy (copy_fails flt) (dst @ ''.tmp'') src s2 = (None, s3)"
      "os_Rename (rename_tmp_fails flt) (dst @ ''.tmp'') dst s3 = Inr s4"
      "(r \<noteq> None \<and> tr = [s0, s1, s2, s3, s4])
       \<or> (r = None \<and> tr = [s0, s1, s2, s3, s4, s4(src := None)])"
proof (cases "os_Rename (rename_fails flt) src dst s0")
  case (Inr s1)
  with assms have "(None, [s0, s1]) = (r, tr)" by (simp add: atomicMove_def)
  then have "r = None \<and> tr = [s0, s1]" by auto
  with renamed [OF Inr] show ?thesis by blast
next
  case r0: (Inl e0)
  show ?thesis
  proof (cases "os_Open (open_fails flt) src s0")
    case (Some e)
    with assms r0 have "(Some e, [s0]) = (r, tr)" by (simp add: atomicMove_def)
    then have "r \<noteq> None \<and> tr = [s0]" by auto
    with early show ?thesis by blast
  next
    case None
    then have ex: "s0 src \<noteq> None" by (simp add: os_Open_def split: if_splits)
    show ?thesis
    proof (cases "ensureDir (mkdir_fails flt) (newdir_size flt) (filepath_Dir dst) s0")
      case (Inl e)
      with assms r0 None have "(Some e, [s0]) = (r, tr)" by (simp add: atomicMove_def)
      then have "r \<noteq> None \<and> tr = [s0]" by auto
      with early show ?thesis by blast
    next
      case d: (Inr s1)
      show ?thesis
      proof (cases "os_Create (create_fails flt) (dst @ ''.tmp'') s1")
        case (Inl e)
        with assms r0 None d have "(Some e, [s0, s1]) = (r, tr)"
          by (simp add: atomicMove_def)
        then have "r \<noteq> None \<and> tr = [s0, s1]" by auto
        with nocreate [OF ex d] show ?thesis by blast
      next
        case c: (Inr s2)
        obtain e s3 where cp: "io_Copy (copy_fails flt) (dst @ ''.tmp'') src s2 = (e, s3)"
          by (cases "io_Copy (copy_fails flt) (dst @ ''.tmp'') src s2")
        have unf: "atomicMove flt src dst s0 =
            (case e of
               Some err \<Rightarrow> (Some err, [s0, s1, s2, s3, remove_tmp flt (dst @ ''.tmp'') s3])
             | None \<Rightarrow>
                 if sync_fails flt then
                   (Some ErrFault, [s0, s1, s2, s3, remove_tmp flt (dst @ ''.tmp'') s3])
                 else if close_fails flt then
                   (Some ErrFault, [s0, s1, s2, s3, remove_tmp flt (dst @ ''.tmp'') s3])
                 else
                   (case os_Rename (rename_tmp_fails flt) (dst @ ''.tmp'') dst s3 of
                      Inl err \<Rightarrow>
                        (Some err, [s0, s1, s2, s3, remove_tmp flt (dst @ ''.tmp'') s3])
                    | Inr s4 \<Rightarrow>
                        (case os_Remove (remove_fails flt) src s4 of
                           Inl err \<Rightarrow> (Some err, [s0, s1, s2, s3, s4])
                         | Inr s5 \<Rightarrow> (None, [s0, s1, s2, s3, s4, s5]))))"
          using r0 None d c cp by (simp add: atomicMove_def)
        have failed: thesis
          if "(Some x, [s0, s1, s2, s3, remove_tmp flt (dst @ ''.tmp'') s3]) = (r, tr)" for x
        proof -
          from that have "r \<noteq> None" "tr = [s0, s1, s2, s3, remove_tmp flt (dst @ ''.tmp'') s3]"
            by auto
          with cleaned [OF ex d c cp] show thesis by blast
        qed
        show ?thesis
        proof (cases e)
          case (Some err)
          with assms unf show ?thesis by (intro failed [of err]) simp
        next
          case e: None
          show ?thesis
          proof (cases "sync_fails flt \<or> close_fails flt")
            case True
            with assms unf e show ?thesis
              by (intro failed [of ErrFault]) (auto split: if_splits)
          next
            case False
            then have ok: "\<not> sync_fails flt" "\<not> close_fails flt" by simp_all
            show ?thesis
            proof (cases "os_Rename (rename_tmp_fails flt) (dst @ ''.tmp'') dst s3")
              case (Inl e2)
              with assms unf e ok show ?thesis by (intro failed [of e2]) simp
            next
              case mv: (Inr s4)
              have "(r \<noteq> None \<and> tr = [s0, s1, s2, s3, s4])
                  \<or> (r = None \<and> tr = [s0, s1, s2, s3, s4, s4(src := None)])"
              proof (cases "os_Remove (remove_fails flt) src s4")
                case (Inl e3)
                with assms unf e ok mv have "(Some e3, [s0, s1, s2, s3, s4]) = (r, tr)" by simp
                then show ?thesis by auto
              next
                case (Inr s5)
                then have "s5 = s4(src := None)" by (rule os_Remove_Inr)
                with assms unf e ok mv Inr
                have "(None, [s0, s1, s2, s3, s4, s4(src := None)]) = (r, tr)" by simp
                then show ?thesis by auto
              qed
              with placed [OF ex d c cp [unfolded e] mv] show ?thesis by blast
            qed
          qed
        qed
      qed
    qed
  qed
qed

lemma atomicMove_source_untouched:
  assumes ne: "src \<noteq> dst @ ''.tmp''" and run: "atomicMove flt src dst s0 = (r, tr)"
    and fail: "r \<noteq> None"
  shows "\<forall>s \<in> set tr. s src = s0 src"
  using run
proof (cases rule: atomicMove_runs)
  case (renamed s1)
  with fail show ?thesis by simp
next
  case early
  then show ?thesis by simp
next
  case (nocreate s1)
  with ensureDir_keeps [OF nocreate(2) nocreate(1)] show ?thesis by simp
next
  case (cleaned s1 s2 s3 e)
  have "s1 src = s0 src" using ensureDir_keeps [OF cleaned(2) cleaned(1)] .
  moreover have "s2 src = s1 src" using os_Create_other [OF cleaned(3) ne] .
  moreover have "s3 src = s2 src" using io_Copy_other [OF cleaned(4) ne] .
  moreover have "remove_tmp flt (dst @ ''.tmp'') s3 src = s3 src"
    using remove_tmp_other [OF ne] .
  ultimately show ?thesis using cleaned(6) by simp
next
  case (placed s1 s2 s3 s4)
  have 1: "s1 src = s0 src" using ensureDir_keeps [OF placed(2) placed(1)] .
  have 2: "s2 src = s1 src" using os_Create_other [OF placed(3) ne] .
  have 3: "s3 src = s2 src" using io_Copy_other [OF placed(4) ne] .
  have t: "s3 (dst @ ''.tmp'') = s2 src"
    using io_Copy_full [OF placed(4) os_Create_at [OF placed(3)]] .
  have 4: "s4 src = s0 src"
  proof (cases "src = dst")
    case True
    with os_Rename_at [OF placed(5)] t 1 2 show ?thesis by simp
  next
    case False
    with os_Rename_other [OF placed(5) ne False] 1 2 3 show ?thesis by simp
  qed
  from placed(6) fail have "tr = [s0, s1, s2, s3, s4]" by blast
  with 1 2 3 4 show ?thesis by simp
qed

lemma atomicMove_dst_complete:
  assumes ne: "src \<noteq> dst @ ''.tmp''" and run: "atomicMove flt src dst s0 = (r, tr)"
  shows "\<forall>s \<in> set tr. \<forall>c. s dst = Some (File c) \<longrightarrow>
           s0 dst = Some (File c) \<or> s0 src = Some (File c)"
  using run
proof (cases rule: atomicMove_runs)
  case (renamed s1)
  with os_Rename_at [OF renamed(1)] show ?thesis by simp
next
  case early
  then show ?thesis by simp
next
  case (nocreate s1)
  with ensureDir_file [OF nocreate(2), of dst] show ?thesis by simp
next
  case (cleaned s1 s2 s3 e)
  have "s2 dst = s1 dst" using os_Create_other [OF cleaned(3) tmp_neq] .
  moreover have "s3 dst = s2 dst" using io_Copy_other [OF cleaned(4) tmp_neq] .
  moreover have "remove_tmp flt (dst @ ''.tmp'') s3 dst = s3 dst"
    using remove_tmp_other [OF tmp_neq] .
  ultimately show ?thesis
    using cleaned(6) ensureDir_file [OF cleaned(2), of dst] by simp
next
  case (placed s1 s2 s3 s4)
  have 2: "s2 dst = s1 dst" using os_Create_other [OF placed(3) tmp_neq] .
  have 3: "s3 dst = s2 dst" using io_Copy_other [OF placed(4) tmp_neq] .
  have "s1 src = s0 src" using ensureDir_keeps [OF placed(2) placed(1)] .
  moreover have "s2 src = s1 src" using os_Create_other [OF placed(3) ne] .
  moreover have "s3 (dst @ ''.tmp'') = s2 src"
    using io_Copy_full [OF placed(4) os_Create_at [OF placed(3)]] .
  ultimately have 4: "s4 dst = s0 src" using os_Rename_at [OF placed(5)] by simp
  from placed(6) have "set tr \<subseteq> {s0, s1, s2, s3, s4, s4(src := None)}" by auto
  moreover have "\<forall>s \<in> {s0, s1, s2, s3, s4, s4(src := None)}. \<forall>c. s dst = Some (File c) \<longrightarrow>
           s0 dst = Some (File c) \<or> s0 src = Some (File c)"
    using 2 3 4 ensureDir_file [OF placed(2), of dst] by simp
  ultimately show ?thesis by blast
qed

lemma atomicMove_tmp_gone:
  assumes ne: "src \<noteq> dst @ ''.tmp''" and run: "atomicMove flt src dst s0 = (r, tr)"
    and fail: "r \<noteq> None" and clean: "\<not> cleanup_fails flt"
  shows "\<forall>c. last tr (dst @ ''.tmp'') = Some (File c) \<longrightarrow>
           (\<forall>s \<in> set tr. s (dst @ ''.tmp'') = Some (File c))"
  using run
proof (cases rule: atomicMove_runs)
  case (renamed s1)
  with fail show ?thesis by simp
next
  case early
  then show ?thesis by simp
next
  case (nocreate s1)
  with ensureDir_file [OF nocreate(2), of "dst @ ''.tmp''"] show ?thesis by simp
next
  case (cleaned s1 s2 s3 e)
  with remove_tmp_ok [OF clean, of "dst @ ''.tmp''" s3] show ?thesis by simp
next
  case (placed s1 s2 s3 s4)
  have "s4 (dst @ ''.tmp'') = None" using os_Rename_old [OF placed(5)] by simp
  moreover from placed(6) fail have "tr = [s0, s1, s2, s3, s4]" by blast
  ultimately show ?thesis by simp
qed

text \<open>
  C1 (as the code has it). For a source path other than the temporary name
  \<open>dst.tmp\<close>: a move whose rename succeeds is that rename and nothing else. When the
  move fails, the source holds in every state what it held at the start. In every state
  of every move, a file visible under the final destination name is the file that was
  there before or the complete source. After a failed move whose best-effort removal of
  the temporary file does not itself fail, a file under the temporary name is one that
  was there from the start and was never written.
\<close>

theorem atomicMove_failure_safe:
  assumes "src \<noteq> dst @ ''.tmp''"
  shows "(\<forall>s1. os_Rename (rename_fails flt) src dst s0 = Inr s1 \<longrightarrow>
            atomicMove flt src dst s0 = (None, [s0, s1]))
    \<and> (fst (atomicMove flt src dst s0) \<noteq> None \<longrightarrow>
         (\<forall>s \<in> set (snd (atomicMove flt src dst s0)). s src = s0 src))
    \<and> (\<forall>s \<in> set (snd (atomicMove flt src dst s0)). \<forall>c. s dst = Some (File c) \<longrightarrow>
           s0 dst = Some (File c) \<or> s0 src = Some (File c))
    \<and> (fst (atomicMove flt src dst s0) \<noteq> None \<and> \<not> cleanup_fails flt \<longrightarrow>
         (\<forall>c. last (snd (atomicMove flt src dst s0)) (dst @ ''.tmp'') = Some (File c) \<longrightarrow>
            (\<forall>s \<in> set (snd (atomicMove flt src dst s0)). s (dst @ ''.tmp'') = Some (File c))))"
proof -
  obtain r tr where run: "atomicMove flt src dst s0 = (r, tr)"
    by (cases "atomicMove flt src dst s0")
  have "\<forall>s1. os_Rename (rename_fails flt) src dst s0 = Inr s1 \<longrightarrow>
      atomicMove flt src dst s0 = (None, [s0, s1])"
    by (simp add: atomicMove_def)
  moreover have "r \<noteq> None \<longrightarrow> (\<forall>s \<in> set tr. s src = s0 src)"
    using atomicMove_source_untouched [OF assms run] by blast
  moreover have "\<forall>s \<in> set tr. \<forall>c. s dst = Some (File c) \<longrightarrow>
      s0 dst = Some (File c) \<or> s0 src = Some (File c)"
    using atomicMove_dst_complete [OF assms run] .
  moreover have "r \<noteq> None \<and> \<not> cleanup_fails flt \<longrightarrow>
      (\<forall>c. last tr (dst @ ''.tmp'') = Some (File c) \<longrightarrow>
         (\<forall>s \<in> set tr. s (dst @ ''.tmp'') = Some (File c)))"
    using atomicMove_tmp_gone [OF assms run] by blast
  ultimately show ?thesis unfolding run fst_conv snd_conv by blast
qed

lemmas transfer_eval =
  atomicMove_def copyTo_def os_Rename_def os_Open_def ensureDir_def os_Create_def
  io_Copy_def os_Remove_def remove_tmp_def no_faults_def

text \<open>
  A cross-volume move whose copy breaks after two bytes: the move fails, the source
  keeps its bytes, the final name stays empty and the temporary file is gone.
\<close>

theorem atomicMove_failure_safe_witness:
  "''/in/a.txt'' \<noteq> ''/out/a.txt'' @ ''.tmp''
   \<and> fst (atomicMove (no_faults\<lparr>rename_fails := True, copy_fails := Some 2\<rparr>)
            ''/in/a.txt'' ''/out/a.txt'' fs_in) = Some ErrFault
   \<and> map (\<lambda>s. s ''/in/a.txt'')
        (snd (atomicMove (no_faults\<lparr>rename_fails := True, copy_fails := Some 2\<rparr>)
            ''/in/a.txt'' ''/out/a.txt'' fs_in))
      = replicate 5 (Some (File ''hello''))
   \<and> map (\<lambda>s. s ''/out/a.txt'')
        (snd (atomicMove (no_faults\<lparr>rename_fails := True, copy_fails := Some 2\<rparr>)
            ''/in/a.txt'' ''/out/a.txt'' fs_in))
      = replicate 5 None
   \<and> map (\<lambda>s. s ''/out/a.txt.tmp'')
        (snd (atomicMove (no_faults\<lparr>rename_fails := True, copy_fails := Some 2\<rparr>)
            ''/in/a.txt'' ''/out/a.txt'' fs_in))
      = [None, None, Some (File []), Some (File ''he''), None]"
proof -
  have ne: "''/in/a.txt'' \<noteq> ''/out/a.txt'' @ ''.tmp''" by simp
  note inst = atomicMove_failure_safe
    [of "''/in/a.txt''" "''/out/a.txt''"
        "no_faults\<lparr>rename_fails := True, copy_fails := Some 2\<rparr>" fs_in, OF ne]
  have run: "fst (atomicMove (no_faults\<lparr>rename_fails := True, copy_fails := Some 2\<rparr>)
            ''/in/a.txt'' ''/out/a.txt'' fs_in) = Some ErrFault
   \<and> map (\<lambda>s. s ''/in/a.txt'')
        (snd (atomicMove (no_faults\<lparr>rename_fails := True, copy_fails := Some 2\<rparr>)
            ''/in/a.txt'' ''/out/a.txt'' fs_in))
      = replicate 5 (Some (File ''hello''))
   \<and> map (\<lambda>s. s ''/out/a.txt'')
        (snd (atomicMove (no_faults\<lparr>rename_fails := True, copy_fails := Some 2\<rparr>)
            ''/in/a.txt'' ''/out/a.txt'' fs_in))
      = replicate 5 None
   \<and> map (\<lambda>s. s ''/out/a.txt.tmp'')
        (snd (atomicMove (no_faults\<lparr>rename_fails := True, copy_fails := Some 2\<rparr>)
            ''/in/a.txt'' ''/out/a.txt'' fs_in))
      = [None, None, Some (File []), Some (File ''he''), None]"
    by (simp add: transfer_eval fs_in_def filepath_Dir_def filepath_Clean_def clean_elem_def
        numeral_eq_Suc)
  from inst run ne show ?thesis by blast
qed

text \<open>
  The claim as written fails in two ways. When the source is itself named \<open>dst.tmp\<close>
  and the destination is an existing directory, the rename fails, creating the
  temporary file truncates the source, and the removal after the second failed rename
  deletes it. And when the removal of the temporary file fails, its error is dropped and
  the partial temporary file stays.
\<close>

theorem atomicMove_counterexample:
  "fs_alias ''/in/a.tmp'' = Some (File ''hello'')
   \<and> fst (atomicMove no_faults ''/in/a.tmp'' ''/in/a'' fs_alias) = Some ErrIsDir
   \<and> last (snd (atomicMove no_faults ''/in/a.tmp'' ''/in/a'' fs_alias)) ''/in/a.tmp'' = None
   \<and> fst (atomicMove
            (no_faults\<lparr>rename_fails := True, copy_fails := Some 2, cleanup_fails := True\<rparr>)
            ''/in/a.txt'' ''/out/a.txt'' fs_in) = Some ErrFault
   \<and> last (snd (atomicMove
            (no_faults\<lparr>rename_fails := True, copy_fails := Some 2, cleanup_fails := True\<rparr>)
            ''/in/a.txt'' ''/out/a.txt'' fs_in)) ''/out/a.txt.tmp'' = Some (File ''he'')"
  by (simp add: transfer_eval fs_in_def fs_alias_def filepath_Dir_def filepath_Clean_def
      clean_elem_def)





section \<open>Properties of the dispatch coordinator\<close>

lemma logf_processing [simp]: "processing (logf e w) = processing w"
  by (simp add: logf_def)


lemma post_actions_processing [simp]: "processing (post_actions ev dav r dst w1) = processing w1"
  by (simp add: post_actions_def split: option.splits)







lemmas dispatch_eval =
  handleFile_def processing_LoadOrStore_def processing_Delete_def dispatch_def transfer_def
  post_actions_def logf_def os_Stat_def hasIgnoredExt_def strings_EqualFold_def
  chooseRule_def detectMIME_def anyPatternMatch_def extMatches_def mimePrefixMatches_def
  strings_ToLower_def lower_char_def strings_TrimPrefix_def fileExistsWithSameSize_def
  fileExistsWithSameSize_loop.simps uniquePath_def uniquePath_loop.simps

text \<open>
  C4. Duplicate detection is claimed to run when the rule enables duplicate-skip or the
  call is a startup catch-up scan with a copy action. The code tests the rule's flag
  only: in a startup scan (the stability check skipped) with a copy rule whose flag is
  off, a destination that already holds the file under the same name and size is not
  detected, and the file is copied again under the next numbered name.
\<close>

theorem handleFile_startup_copy_duplicate:
  "SkipDuplicates (hd (Rules cfg_copy)) = False \<and> Action (hd (Rules cfg_copy)) = ''copy''
   \<and> fileExistsWithSameSize fs_startup ''/in/a.txt'' ''/out''
   \<and> map_option (\<lambda>w'. (filesys w' ''/in/a.txt'', filesys w' ''/out/a.txt'',
                        filesys w' ''/out/a (2).txt'', logged w'))
        (handleFile env0 ''/in/a.txt'' cfg_copy False True w_startup)
      = Some (Some (File ''hello''), Some (File ''hello''), Some (File ''hello''),
              [Copied ''a.txt'' ''/out'' ''Text'',
               Notified ''downwatch'' ''Copied a.txt to /out''])"
  by (simp add: dispatch_eval transfer_eval path_eval env0_def cfg_copy_def w_startup_def
      fs_startup_def sysW_def)


end
